theory Spec2Isabelle
  imports Main "HOL-Library.Sublist"
begin

section \<open>Python string primitives used by the assistant\<close>

text \<open>
  Strings are lists of 8-bit characters. The library functions \<open>str.lower\<close>,
  \<open>str.strip\<close>, \<open>in\<close>, \<open>str.replace\<close>, \<open>int\<close> and \<open>str\<close> are modelled on ASCII
  text: letters \<open>A\<close>..\<open>Z\<close> are lowered, the ASCII white space characters are stripped,
  and only the digits \<open>0\<close>..\<open>9\<close> are digits.
\<close>

definition lower_char :: "char \<Rightarrow> char" where
  "lower_char c =
     (case map_of (zip ''ABCDEFGHIJKLMNOPQRSTUVWXYZ'' ''abcdefghijklmnopqrstuvwxyz'') c of
        Some d \<Rightarrow> d
      | None \<Rightarrow> c)"

definition lower :: "string \<Rightarrow> string" where
  "lower s = map lower_char s"

definition is_space :: "char \<Rightarrow> bool" where
  "is_space c \<longleftrightarrow>
     c \<in> set [CHR '' '', CHR 0x09, CHR 0x0A, CHR 0x0B, CHR 0x0C, CHR 0x0D,
               CHR 0x1C, CHR 0x1D, CHR 0x1E, CHR 0x1F]"

definition lstrip :: "string \<Rightarrow> string" where
  "lstrip s = dropWhile is_space s"

definition rstrip :: "string \<Rightarrow> string" where
  "rstrip s = rev (dropWhile is_space (rev s))"

definition strip :: "string \<Rightarrow> string" where
  "strip s = rstrip (lstrip s)"

text \<open>\<open>py_in sub s\<close> is Python's \<open>sub in s\<close> on strings: \<open>sub\<close> occurs in \<open>s\<close> as a
  contiguous block, tried at every position from the left.\<close>

fun py_in :: "string \<Rightarrow> string \<Rightarrow> bool" where
  "py_in sub [] = (sub = [])"
| "py_in sub (c # cs) = (prefix sub (c # cs) \<or> py_in sub cs)"

text \<open>\<open>replace old new s\<close> is \<open>s.replace(old, new)\<close> for a non-empty \<open>old\<close>: the
  occurrences are found from the left and do not overlap.\<close>

function replace :: "string \<Rightarrow> string \<Rightarrow> string \<Rightarrow> string" where
  "replace old new [] = []"
| "replace old new (c # cs) =
     (if old \<noteq> [] \<and> prefix old (c # cs)
      then new @ replace old new (drop (length old) (c # cs))
      else c # replace old new cs)"
  by pat_completeness auto
termination
  by (relation "measure (\<lambda>(old, new, s). length s)") (auto simp: neq_Nil_conv)

definition digit_val :: "char \<Rightarrow> int option" where
  "digit_val c = map_of (zip ''0123456789'' [0, 1, 2, 3, 4, 5, 6, 7, 8, 9]) c"

text \<open>The digits of an integer literal: at least one digit, and single underscores only
  between two digits. The flag says whether the previous character was a digit.\<close>

fun digits_acc :: "int \<Rightarrow> bool \<Rightarrow> string \<Rightarrow> int option" where
  "digits_acc acc prev_digit [] = (if prev_digit then Some acc else None)"
| "digits_acc acc prev_digit (c # cs) =
     (if c = CHR ''_'' then (if prev_digit then digits_acc acc False cs else None)
      else case digit_val c of
             None \<Rightarrow> None
           | Some d \<Rightarrow> digits_acc (10 * acc + d) True cs)"

text \<open>\<open>py_int s\<close> is \<open>int(s)\<close>: \<open>None\<close> stands for the \<open>ValueError\<close>. White space
  around the literal is dropped, one sign is allowed, the base is ten. (The bound that
  recent interpreters put on the number of digits is not modelled.)\<close>

definition py_int :: "string \<Rightarrow> int option" where
  "py_int s =
     (case strip s of
        [] \<Rightarrow> None
      | c # cs \<Rightarrow>
          if c = CHR ''-'' then map_option uminus (digits_acc 0 False cs)
          else if c = CHR ''+'' then digits_acc 0 False cs
          else digits_acc 0 False (c # cs))"

text \<open>\<open>py_str n\<close> is \<open>str(n)\<close> for a natural number.\<close>

definition digit_char :: "nat \<Rightarrow> char" where
  "digit_char d = ''0123456789'' ! d"

function py_str :: "nat \<Rightarrow> string" where
  "py_str n = (if n < 10 then [digit_char n] else py_str (n div 10) @ [digit_char (n mod 10)])"
  by pat_completeness auto
termination
  by (relation "measure id") auto

declare py_str.simps [simp del]

section \<open>The task store (task\_manager.py)\<close>

text \<open>A task is the dictionary built by \<open>add_task\<close>; the store is the dictionary kept in
  \<open>self.tasks\<close>. Time stamps are the ISO strings returned by the clock.\<close>

record task =
  id_t :: int
  text_t :: string
  priority :: string
  status :: string
  created :: string
  due_date :: "string option"
  completed_date :: "string option"

record store =
  tasks :: "task list"
  completed :: "task list"
  created_date :: string
  last_modified :: string

text \<open>The documents of the JSON library: numbers are integers.\<close>

datatype json =
    JNull
  | JBool bool
  | JInt int
  | JStr string
  | JArr "json list"
  | JObj "(string \<times> json) list"

text \<open>\<open>json.dump\<close> with \<open>indent=2\<close> and \<open>ensure_ascii=False\<close>: the text of a
  document. Characters are bytes, so text outside ASCII is written as it is.\<close>

definition hex_char :: "nat \<Rightarrow> char" where
  "hex_char d = ''0123456789abcdef'' ! d"

definition escape_char :: "char \<Rightarrow> string" where
  "escape_char c =
     (if c = CHR 0x22 then [CHR 0x5C, CHR 0x22]
      else if c = CHR 0x5C then [CHR 0x5C, CHR 0x5C]
      else if c = CHR 0x0A then [CHR 0x5C, CHR ''n'']
      else if c = CHR 0x0D then [CHR 0x5C, CHR ''r'']
      else if c = CHR 0x09 then [CHR 0x5C, CHR ''t'']
      else if c = CHR 0x08 then [CHR 0x5C, CHR ''b'']
      else if c = CHR 0x0C then [CHR 0x5C, CHR ''f'']
      else if (of_char c :: nat) < 32
        then [CHR 0x5C, CHR ''u'', CHR ''0'', CHR ''0'',
              hex_char (of_char c div 16), hex_char (of_char c mod 16)]
      else [c])"

definition dump_str :: "string \<Rightarrow> string" where
  "dump_str s = [CHR 0x22] @ concat (map escape_char s) @ [CHR 0x22]"

definition dump_int :: "int \<Rightarrow> string" where
  "dump_int i = (if i < 0 then ''-'' @ py_str (nat (- i)) else py_str (nat i))"

definition newline_indent :: "nat \<Rightarrow> string" where
  "newline_indent level = CHR 0x0A # replicate (2 * level) CHR '' ''"

fun join_with :: "string \<Rightarrow> string list \<Rightarrow> string" where
  "join_with sep [] = []"
| "join_with sep [x] = x"
| "join_with sep (x # y # ys) = x @ sep @ join_with sep (y # ys)"

fun dumps :: "nat \<Rightarrow> json \<Rightarrow> string" where
  "dumps level JNull = ''null''"
| "dumps level (JBool b) = (if b then ''true'' else ''false'')"
| "dumps level (JInt i) = dump_int i"
| "dumps level (JStr s) = dump_str s"
| "dumps level (JArr xs) =
     (if xs = [] then ''[]''
      else ''['' @ newline_indent (Suc level) @
           join_with ('','' @ newline_indent (Suc level)) (map (dumps (Suc level)) xs) @
           newline_indent level @ '']'')"
| "dumps level (JObj kvs) =
     (if kvs = [] then ''{}''
      else ''{'' @ newline_indent (Suc level) @
           join_with ('','' @ newline_indent (Suc level))
             (map (\<lambda>kv. dump_str (fst kv) @ '': '' @ dumps (Suc level) (snd kv)) kvs) @
           newline_indent level @ ''}'')"

text \<open>\<open>json.load\<close>: the parser, \<open>None\<close> for the \<open>JSONDecodeError\<close>. The recursion
  into arrays and objects is counted down from the length of the text. Numbers with a
  fraction or an exponent, and \<open>\\u\<close> escapes above 255, are not in this model and are
  read as errors; a key that occurs again replaces the earlier value, as in a
  dictionary.\<close>

definition is_ws :: "char \<Rightarrow> bool" where
  "is_ws c \<longleftrightarrow> c = CHR '' '' \<or> c = CHR 0x09 \<or> c = CHR 0x0A \<or> c = CHR 0x0D"

definition skip_ws :: "string \<Rightarrow> string" where
  "skip_ws s = dropWhile is_ws s"

definition hex_val :: "char \<Rightarrow> nat option" where
  "hex_val c =
     map_of (zip ''0123456789abcdefABCDEF''
               [0, 1, 2, 3, 4, 5, 6, 7, 8, 9, 10, 11, 12, 13, 14, 15, 10, 11, 12, 13, 14, 15]) c"

definition unescape :: "char \<Rightarrow> char option" where
  "unescape e =
     map_of [(CHR 0x22, CHR 0x22), (CHR 0x5C, CHR 0x5C), (CHR ''/'', CHR ''/''),
             (CHR ''b'', CHR 0x08), (CHR ''f'', CHR 0x0C), (CHR ''n'', CHR 0x0A),
             (CHR ''r'', CHR 0x0D), (CHR ''t'', CHR 0x09)] e"

definition hex4 :: "char \<Rightarrow> char \<Rightarrow> char \<Rightarrow> char \<Rightarrow> nat option" where
  "hex4 a b c d =
     (case (hex_val a, hex_val b, hex_val c, hex_val d) of
        (Some x, Some y, Some z, Some w) \<Rightarrow> Some (((x * 16 + y) * 16 + z) * 16 + w)
      | _ \<Rightarrow> None)"

definition cons_char :: "char \<Rightarrow> (string \<times> string) option \<Rightarrow> (string \<times> string) option" where
  "cons_char c r = map_option (\<lambda>(s, rest). (c # s, rest)) r"

fun parse_chars :: "string \<Rightarrow> (string \<times> string) option" where
  "parse_chars [] = None"
| "parse_chars (c # cs) =
     (if c = CHR 0x22 then Some ([], cs)
      else if c = CHR 0x5C then
        (case cs of
           [] \<Rightarrow> None
         | e # cs1 \<Rightarrow>
             if e = CHR ''u'' then
               (case cs1 of
                  a # b # x # y # cs2 \<Rightarrow>
                    (case hex4 a b x y of
                       None \<Rightarrow> None
                     | Some n \<Rightarrow> if n < 256 then cons_char (char_of n) (parse_chars cs2) else None)
                | _ \<Rightarrow> None)
             else
               (case unescape e of
                  None \<Rightarrow> None
                | Some d \<Rightarrow> cons_char d (parse_chars cs1)))
      else if (of_char c :: nat) < 32 then None
      else cons_char c (parse_chars cs))"

definition is_digit :: "char \<Rightarrow> bool" where
  "is_digit c \<longleftrightarrow> digit_val c \<noteq> None"

definition dec_val :: "string \<Rightarrow> int" where
  "dec_val ds = foldl (\<lambda>a c. 10 * a + (case digit_val c of Some d \<Rightarrow> d | None \<Rightarrow> 0)) 0 ds"

definition starts_fraction :: "string \<Rightarrow> bool" where
  "starts_fraction s = (case s of [] \<Rightarrow> False | c # cs \<Rightarrow> c = CHR ''.'' \<or> c = CHR ''e'' \<or> c = CHR ''E'')"

definition parse_digits :: "bool \<Rightarrow> string \<Rightarrow> (json \<times> string) option" where
  "parse_digits neg s =
     (case s of
        [] \<Rightarrow> None
      | d # ds \<Rightarrow>
          if \<not> is_digit d then None
          else
            let digs = (if d = CHR ''0'' then [d] else d # takeWhile is_digit ds);
                rest = (if d = CHR ''0'' then ds else dropWhile is_digit ds)
            in if starts_fraction rest then None
               else Some (JInt (if neg then - dec_val digs else dec_val digs), rest))"

definition parse_number :: "string \<Rightarrow> (json \<times> string) option" where
  "parse_number s =
     (case s of
        [] \<Rightarrow> None
      | c # cs \<Rightarrow> if c = CHR ''-'' then parse_digits True cs else parse_digits False s)"

fun dict_put :: "(string \<times> json) list \<Rightarrow> string \<Rightarrow> json \<Rightarrow> (string \<times> json) list" where
  "dict_put [] k v = [(k, v)]"
| "dict_put (kv # kvs) k v = (if fst kv = k then (k, v) # kvs else kv # dict_put kvs k v)"

definition dict_of :: "(string \<times> json) list \<Rightarrow> (string \<times> json) list" where
  "dict_of kvs = foldl (\<lambda>d kv. dict_put d (fst kv) (snd kv)) [] kvs"

fun parse_value :: "nat \<Rightarrow> string \<Rightarrow> (json \<times> string) option"
  and parse_items :: "nat \<Rightarrow> string \<Rightarrow> (json list \<times> string) option"
  and parse_members :: "nat \<Rightarrow> string \<Rightarrow> ((string \<times> json) list \<times> string) option"
where
  "parse_value 0 s = None"
| "parse_value (Suc n) s =
     (case skip_ws s of
        [] \<Rightarrow> None
      | c # cs \<Rightarrow>
          if c = CHR ''{'' then
            (case skip_ws cs of
               [] \<Rightarrow> None
             | d # ds \<Rightarrow>
                 if d = CHR ''}'' then Some (JObj [], ds)
                 else map_option (\<lambda>(kvs, r). (JObj (dict_of kvs), r)) (parse_members n cs))
          else if c = CHR ''['' then
            (case skip_ws cs of
               [] \<Rightarrow> None
             | d # ds \<Rightarrow>
                 if d = CHR '']'' then Some (JArr [], ds)
                 else map_option (\<lambda>(xs, r). (JArr xs, r)) (parse_items n cs))
          else if c = CHR 0x22 then map_option (\<lambda>(x, r). (JStr x, r)) (parse_chars cs)
          else if prefix ''null'' (c # cs) then Some (JNull, drop 4 (c # cs))
          else if prefix ''true'' (c # cs) then Some (JBool True, drop 4 (c # cs))
          else if prefix ''false'' (c # cs) then Some (JBool False, drop 5 (c # cs))
          else parse_number (c # cs))"
| "parse_items 0 s = None"
| "parse_items (Suc n) s =
     (case parse_value n s of
        None \<Rightarrow> None
      | Some (v, r) \<Rightarrow>
          (case skip_ws r of
             [] \<Rightarrow> None
           | c # cs \<Rightarrow>
               if c = CHR '','' then map_option (\<lambda>(vs, r'). (v # vs, r')) (parse_items n cs)
               else if c = CHR '']'' then Some ([v], cs)
               else None))"
| "parse_members 0 s = None"
| "parse_members (Suc n) s =
     (case skip_ws s of
        [] \<Rightarrow> None
      | q # s1 \<Rightarrow>
          if q \<noteq> CHR 0x22 then None
          else
            (case parse_chars s1 of
               None \<Rightarrow> None
             | Some (k, s2) \<Rightarrow>
                 (case skip_ws s2 of
                    [] \<Rightarrow> None
                  | colon # s3 \<Rightarrow>
                      if colon \<noteq> CHR '':'' then None
                      else
                        (case parse_value n s3 of
                           None \<Rightarrow> None
                         | Some (v, s4) \<Rightarrow>
                             (case skip_ws s4 of
                                [] \<Rightarrow> None
                              | c # cs \<Rightarrow>
                                  if c = CHR '','' then
                                    map_option (\<lambda>(kvs, r). ((k, v) # kvs, r)) (parse_members n cs)
                                  else if c = CHR ''}'' then Some ([(k, v)], cs)
                                  else None)))))"

definition loads :: "string \<Rightarrow> json option" where
  "loads s =
     (case parse_value (Suc (length s)) s of
        None \<Rightarrow> None
      | Some (j, r) \<Rightarrow> if skip_ws r = [] then Some j else None)"

text \<open>For the proof that a dumped document is read back: documents whose objects have
  distinct keys, the depth of recursion that reading a document takes, and the texts that
  may follow a number.\<close>

fun wf_json :: "json \<Rightarrow> bool" where
  "wf_json (JArr xs) = list_all wf_json xs"
| "wf_json (JObj kvs) = (distinct (map fst kvs) \<and> list_all (\<lambda>kv. wf_json (snd kv)) kvs)"
| "wf_json j = True"

fun cost :: "json \<Rightarrow> nat" where
  "cost (JArr xs) = Suc (sum_list (map (\<lambda>x. Suc (cost x)) xs))"
| "cost (JObj kvs) = Suc (sum_list (map (\<lambda>kv. Suc (cost (snd kv))) kvs))"
| "cost j = 0"

definition value_end :: "string \<Rightarrow> bool" where
  "value_end rest \<longleftrightarrow> \<not> starts_fraction rest \<and> (case rest of [] \<Rightarrow> True | c # cs \<Rightarrow> \<not> is_digit c)"

text \<open>The tasks file: absent, present but not to be opened, or present with its text.\<close>

datatype tasks_file = Missing | Unreadable | Content string

text \<open>What the environment does with a write: it succeeds, or it raises and leaves the
  given file behind.\<close>

datatype write_result = Written | WriteFailed tasks_file

definition json_of_opt :: "string option \<Rightarrow> json" where
  "json_of_opt x = (case x of None \<Rightarrow> JNull | Some s \<Rightarrow> JStr s)"

definition json_of_task :: "task \<Rightarrow> json" where
  "json_of_task t =
     JObj [(''id'', JInt (id_t t)),
           (''text'', JStr (text_t t)),
           (''priority'', JStr (priority t)),
           (''status'', JStr (status t)),
           (''created'', JStr (created t)),
           (''due_date'', json_of_opt (due_date t)),
           (''completed_date'', json_of_opt (completed_date t))]"

definition json_of_store :: "store \<Rightarrow> json" where
  "json_of_store s =
     JObj [(''tasks'', JArr (map json_of_task (tasks s))),
           (''completed'', JArr (map json_of_task (completed s))),
           (''created_date'', JStr (created_date s)),
           (''last_modified'', JStr (last_modified s))]"

text \<open>The typed reading of a loaded document; \<open>None\<close> when the document is not a task
  store (such a dictionary is outside this model).\<close>

definition str_of_json :: "json \<Rightarrow> string option" where
  "str_of_json j = (case j of JStr s \<Rightarrow> Some s | _ \<Rightarrow> None)"

definition int_of_json :: "json \<Rightarrow> int option" where
  "int_of_json j = (case j of JInt n \<Rightarrow> Some n | _ \<Rightarrow> None)"

definition opt_of_json :: "json \<Rightarrow> string option option" where
  "opt_of_json j = (case j of JNull \<Rightarrow> Some None | JStr s \<Rightarrow> Some (Some s) | _ \<Rightarrow> None)"

definition field :: "(string \<times> json) list \<Rightarrow> string \<Rightarrow> (json \<Rightarrow> 'a option) \<Rightarrow> 'a option" where
  "field kvs k rd = Option.bind (map_of kvs k) rd"

definition task_of_json :: "json \<Rightarrow> task option" where
  "task_of_json j =
     (case j of
        JObj kvs \<Rightarrow>
          Option.bind (field kvs ''id'' int_of_json) (\<lambda>i.
          Option.bind (field kvs ''text'' str_of_json) (\<lambda>tx.
          Option.bind (field kvs ''priority'' str_of_json) (\<lambda>p.
          Option.bind (field kvs ''status'' str_of_json) (\<lambda>s.
          Option.bind (field kvs ''created'' str_of_json) (\<lambda>c.
          Option.bind (field kvs ''due_date'' opt_of_json) (\<lambda>d.
          Option.bind (field kvs ''completed_date'' opt_of_json) (\<lambda>cd.
          Some \<lparr>id_t = i, text_t = tx, priority = p, status = s, created = c,
                 due_date = d, completed_date = cd\<rparr>)))))))
      | _ \<Rightarrow> None)"

fun those_tasks :: "json list \<Rightarrow> task list option" where
  "those_tasks [] = Some []"
| "those_tasks (j # js) =
     Option.bind (task_of_json j) (\<lambda>t. Option.bind (those_tasks js) (\<lambda>ts. Some (t # ts)))"

definition tasks_of_json :: "json \<Rightarrow> task list option" where
  "tasks_of_json j = (case j of JArr js \<Rightarrow> those_tasks js | _ \<Rightarrow> None)"

definition store_of_json :: "json \<Rightarrow> store option" where
  "store_of_json j =
     (case j of
        JObj kvs \<Rightarrow>
          Option.bind (field kvs ''tasks'' tasks_of_json) (\<lambda>ts.
          Option.bind (field kvs ''completed'' tasks_of_json) (\<lambda>cs.
          Option.bind (field kvs ''created_date'' str_of_json) (\<lambda>c.
          Option.bind (field kvs ''last_modified'' str_of_json) (\<lambda>l.
          Some \<lparr>tasks = ts, completed = cs, created_date = c, last_modified = l\<rparr>))))
      | _ \<Rightarrow> None)"

text \<open>The manager object: \<open>self.tasks\<close> and the file at \<open>self.file_path\<close>.\<close>

record manager =
  self_tasks :: store
  disk :: tasks_file

definition new_store :: "string \<Rightarrow> string \<Rightarrow> store" where
  "new_store now1 now2 = \<lparr>tasks = [], completed = [], created_date = now1, last_modified = now2\<rparr>"

text \<open>\<open>load_tasks\<close>: the document of an existing readable file, a new structure when the
  file is missing, and a new structure again when reading raises. The two readings of the
  clock are \<open>now1\<close> and \<open>now2\<close>.\<close>

definition load_tasks :: "string \<Rightarrow> string \<Rightarrow> tasks_file \<Rightarrow> json" where
  "load_tasks now1 now2 f =
     (case f of
        Content s \<Rightarrow>
          (case loads s of
             Some j \<Rightarrow> j
           | None \<Rightarrow> json_of_store (new_store now1 now2))
      | Missing \<Rightarrow> json_of_store (new_store now1 now2)
      | Unreadable \<Rightarrow> json_of_store (new_store now1 now2))"

text \<open>\<open>save_tasks\<close>: stamps \<open>last_modified\<close>, then writes the whole structure; an
  exception while writing is caught and reported as \<open>False\<close>.\<close>

definition save_tasks :: "string \<Rightarrow> write_result \<Rightarrow> manager \<Rightarrow> bool \<times> manager" where
  "save_tasks now w m =
     (let m1 = m\<lparr>self_tasks := (self_tasks m)\<lparr>last_modified := now\<rparr>\<rparr>
      in case w of
           Written \<Rightarrow> (True, m1\<lparr>disk := Content (dumps 0 (json_of_store (self_tasks m1)))\<rparr>)
         | WriteFailed f \<Rightarrow> (False, m1\<lparr>disk := f\<rparr>))"

text \<open>\<open>add_task\<close>: \<open>now\<close> is the clock read for \<open>created\<close>, \<open>now_s\<close> the one read by
  \<open>save_tasks\<close>.\<close>

definition add_task ::
  "string \<Rightarrow> string \<Rightarrow> write_result \<Rightarrow> string \<Rightarrow> string \<Rightarrow> string option \<Rightarrow> manager \<Rightarrow> string \<times> manager"
where
  "add_task now now_s w task_text prio due m =
     (if strip task_text = [] then (''Error: Task cannot be empty.'', m)
      else
        let task_id = int (length (tasks (self_tasks m))) + 1;
            new_task = \<lparr>id_t = task_id, text_t = strip task_text, priority = lower prio,
                        status = ''pending'', created = now, due_date = due,
                        completed_date = None\<rparr>;
            m1 = m\<lparr>self_tasks := (self_tasks m)\<lparr>tasks := tasks (self_tasks m) @ [new_task]\<rparr>\<rparr>;
            (ok, m2) = save_tasks now_s w m1
        in if ok then (''Task added successfully: '' @ strip task_text, m2)
           else (''Error: Could not save task.'', m2))"

text \<open>The loops of \<open>delete_task\<close> and \<open>complete_task\<close> stop at the first task that
  satisfies the test; \<open>first_index\<close> is its position, so the index given to
  \<open>delete_at\<close> and \<open>complete_at\<close> is always within the pending list.\<close>

fun first_index :: "('a \<Rightarrow> bool) \<Rightarrow> 'a list \<Rightarrow> nat option" where
  "first_index P [] = None"
| "first_index P (x # xs) = (if P x then Some 0 else map_option Suc (first_index P xs))"

definition pop :: "nat \<Rightarrow> 'a list \<Rightarrow> 'a list" where
  "pop i xs = take i xs @ drop (Suc i) xs"

definition delete_at :: "string \<Rightarrow> write_result \<Rightarrow> nat \<Rightarrow> manager \<Rightarrow> string \<times> manager" where
  "delete_at now w i m =
     (let deleted_task = tasks (self_tasks m) ! i;
          m1 = m\<lparr>self_tasks := (self_tasks m)\<lparr>tasks := pop i (tasks (self_tasks m))\<rparr>\<rparr>;
          (ok, m2) = save_tasks now w m1
      in (''Task deleted: '' @ text_t deleted_task, m2))"

definition delete_task :: "string \<Rightarrow> write_result \<Rightarrow> string \<Rightarrow> manager \<Rightarrow> string \<times> manager" where
  "delete_task now w task_identifier m =
     (case py_int task_identifier of
        Some task_id \<Rightarrow>
          (case first_index (\<lambda>t. id_t t = task_id) (tasks (self_tasks m)) of
             Some i \<Rightarrow> delete_at now w i m
           | None \<Rightarrow> (''Task not found with that ID.'', m))
      | None \<Rightarrow>
          (let task_text = lower task_identifier
           in case first_index (\<lambda>t. py_in task_text (lower (text_t t))) (tasks (self_tasks m)) of
                Some i \<Rightarrow> delete_at now w i m
              | None \<Rightarrow> (''Task not found with that text.'', m)))"

text \<open>\<open>complete_task\<close> changes the found dictionary in place, so the change shows in the
  pending list; it appends the same dictionary to \<open>completed\<close> and then calls
  \<open>list.remove\<close>, which drops the first element equal to it.\<close>

definition complete_at :: "string \<Rightarrow> string \<Rightarrow> write_result \<Rightarrow> nat \<Rightarrow> manager \<Rightarrow> string \<times> manager" where
  "complete_at now now_s w i m =
     (let s = self_tasks m;
          t = (tasks s ! i)\<lparr>status := ''completed'', completed_date := Some now\<rparr>;
          s1 = s\<lparr>tasks := (tasks s)[i := t]\<rparr>;
          s2 = s1\<lparr>completed := completed s1 @ [t]\<rparr>;
          s3 = s2\<lparr>tasks := remove1 t (tasks s2)\<rparr>;
          (ok, m2) = save_tasks now_s w (m\<lparr>self_tasks := s3\<rparr>)
      in (''Task completed: '' @ text_t t, m2))"

definition complete_task ::
  "string \<Rightarrow> string \<Rightarrow> write_result \<Rightarrow> string \<Rightarrow> manager \<Rightarrow> string \<times> manager" where
  "complete_task now now_s w task_identifier m =
     (case py_int task_identifier of
        Some task_id \<Rightarrow>
          (case first_index (\<lambda>t. id_t t = task_id) (tasks (self_tasks m)) of
             Some i \<Rightarrow> complete_at now now_s w i m
           | None \<Rightarrow> (''Task not found with that ID.'', m))
      | None \<Rightarrow>
          (let task_text = lower task_identifier
           in case first_index (\<lambda>t. py_in task_text (lower (text_t t))) (tasks (self_tasks m)) of
                Some i \<Rightarrow> complete_at now now_s w i m
              | None \<Rightarrow> (''Task not found with that text.'', m)))"

definition clear_completed_tasks :: "string \<Rightarrow> write_result \<Rightarrow> manager \<Rightarrow> string \<times> manager" where
  "clear_completed_tasks now w m =
     (let count = length (completed (self_tasks m));
          m1 = m\<lparr>self_tasks := (self_tasks m)\<lparr>completed := []\<rparr>\<rparr>;
          (ok, m2) = save_tasks now w m1
      in (''Cleared '' @ py_str count @ '' completed task'' @ (if count \<noteq> 1 then ''s'' else '''')
            @ ''.'', m2))"


text \<open>\<open>TaskManager.__init__\<close> keeps what \<open>load_tasks\<close> returns. The manager is in this
  model when the loaded document reads as a task store.\<close>

definition init :: "string \<Rightarrow> string \<Rightarrow> tasks_file \<Rightarrow> manager option" where
  "init now1 now2 f =
     map_option (\<lambda>s. \<lparr>self_tasks = s, disk = f\<rparr>) (store_of_json (load_tasks now1 now2 f))"

text \<open>A session is a sequence of calls of the mutating operations. Each call comes with
  what the world gives it: the clock read by the operation itself, the clock read by
  \<open>save_tasks\<close>, and the result of the write.\<close>

datatype call =
    Add string string "string option"
  | Delete string
  | Complete string
  | Clear

type_synonym world = "string \<times> string \<times> write_result"

fun step :: "manager \<Rightarrow> world \<times> call \<Rightarrow> manager" where
  "step m ((now, now_s, w), Add task_text prio due) = snd (add_task now now_s w task_text prio due m)"
| "step m ((now, now_s, w), Delete ident) = snd (delete_task now_s w ident m)"
| "step m ((now, now_s, w), Complete ident) = snd (complete_task now now_s w ident m)"
| "step m ((now, now_s, w), Clear) = snd (clear_completed_tasks now_s w m)"



section \<open>The command loop (Synbi.py)\<close>

text \<open>One round of \<open>main_process\<close> tests the request against the trigger phrases in the
  order of its \<open>if\<close>/\<open>elif\<close> chain; \<open>branch\<close> names the branch that is taken.\<close>

datatype intent =
    NoInput | Sleep | Greeting
  | SpotifyPlay | SpotifyPause | SpotifyResume | SpotifyNext | SpotifyPrevious
  | ShuffleOn | ShuffleOff | RepeatSong | RepeatPlaylist | RepeatOff | SpotifyStatus
  | YoutubePlay | VideoPause | VideoResume | VideoNext | VideoPrevious | VideoMute
  | VideoFullscreen
  | TakePicture | RecordVideo | Screenshot
  | InternetSpeed | Battery | SystemInfo | Weather | SetBrightness | SetVolume
  | SayTime | SayDate
  | TaskNew | TaskDelete | TaskComplete | TaskSpeak | TaskSummary | TaskShow | TaskClear
  | TaskSearch
  | FileMove | FileCopy | FileDelete
  | OpenApp | Wikipedia | SearchGoogle | SearchYoutube
  | WhatsappOpen | WhatsappSend | ProcessList | ProcessClose | GestureStart | GestureStop
  | Exit | Fallback

definition any_in :: "string list \<Rightarrow> string \<Rightarrow> bool" where
  "any_in phrases request = list_ex (\<lambda>p. py_in p request) phrases"

definition branch :: "string \<Rightarrow> intent" where
  "branch request =
    (if request = [] then NoInput
     else if py_in ''wait'' request then Sleep
     else if py_in ''hello'' request then Greeting
     else if py_in ''play spotify'' request then SpotifyPlay
     else if any_in [''pause spotify'', ''stop spotify''] request then SpotifyPause
     else if py_in ''resume spotify'' request then SpotifyResume
     else if py_in ''next song'' request then SpotifyNext
     else if py_in ''previous song'' request then SpotifyPrevious
     else if py_in ''shuffle on'' request then ShuffleOn
     else if py_in ''shuffle off'' request then ShuffleOff
     else if py_in ''repeat song'' request then RepeatSong
     else if py_in ''repeat playlist'' request then RepeatPlaylist
     else if py_in ''repeat off'' request then RepeatOff
     else if py_in ''spotify status'' request then SpotifyStatus
     else if py_in ''play'' request \<and> any_in [''youtube'', ''video'', ''song'', ''music''] request
       then YoutubePlay
     else if any_in [''pause youtube'', ''pause video''] request then VideoPause
     else if any_in [''resume youtube'', ''resume video''] request then VideoResume
     else if any_in [''next youtube'', ''next video''] request then VideoNext
     else if any_in [''previous youtube'', ''previous video''] request then VideoPrevious
     else if any_in [''mute youtube'', ''mute video''] request then VideoMute
     else if any_in [''fullscreen youtube'', ''fullscreen video''] request then VideoFullscreen
     else if any_in [''take picture'', ''take a photo''] request then TakePicture
     else if py_in ''record video'' request then RecordVideo
     else if any_in [''take screenshot'', ''screenshot''] request then Screenshot
     else if any_in [''internet speed'', ''network speed'', ''check internet''] request
       then InternetSpeed
     else if any_in [''battery status'', ''battery level'', ''check battery''] request
       then Battery
     else if any_in [''system info'', ''system status'', ''check system''] request
       then SystemInfo
     else if any_in [''weather'', ''temperature'', ''forecast''] request then Weather
     else if py_in ''set brightness'' request then SetBrightness
     else if py_in ''set volume'' request then SetVolume
     else if py_in ''say time'' request then SayTime
     else if py_in ''say date'' request then SayDate
     else if any_in [''new task'', ''add task''] request then TaskNew
     else if any_in [''delete task'', ''remove task''] request then TaskDelete
     else if any_in [''complete task'', ''mark task complete'', ''finish task''] request
       then TaskComplete
     else if any_in [''speak task'', ''read tasks'', ''list tasks''] request then TaskSpeak
     else if any_in [''task summary'', ''task status''] request then TaskSummary
     else if any_in [''show work'', ''show tasks''] request then TaskShow
     else if any_in [''clear completed'', ''clear finished tasks''] request then TaskClear
     else if any_in [''search task'', ''find task''] request then TaskSearch
     else if py_in ''move'' request \<and> py_in ''from'' request \<and> py_in ''to'' request
       then FileMove
     else if py_in ''copy'' request \<and> py_in ''from'' request \<and> py_in ''to'' request
       then FileCopy
     else if py_in ''delete'' request \<and> py_in ''from'' request then FileDelete
     else if py_in ''open'' request then OpenApp
     else if py_in ''wikipedia'' request then Wikipedia
     else if py_in ''search google'' request then SearchGoogle
     else if py_in ''search youtube'' request then SearchYoutube
     else if any_in [''open whatsapp'', ''launch whatsapp'', ''start whatsapp''] request
       then WhatsappOpen
     else if any_in [''send whatsapp'', ''whatsapp message'', ''send message''] request
       then WhatsappSend
     else if any_in [''list processes'', ''show processes'', ''running processes''] request
       then ProcessList
     else if any_in [''close'', ''kill''] request then ProcessClose
     else if any_in [''start gesture control'', ''enable gesture control'',
                     ''begin gesture control''] request then GestureStart
     else if any_in [''stop gesture control'', ''disable gesture control'',
                     ''end gesture control''] request then GestureStop
     else if any_in [''exit'', ''quit''] request then Exit
     else Fallback)"

text \<open>The branch for a new task. \<open>follow_up\<close> is what \<open>command()\<close> returns when the
  assistant asks for the task (the empty string when nothing was heard). The result is
  the list of spoken sentences and the manager.\<close>

definition new_task_text :: "string \<Rightarrow> string" where
  "new_task_text request = strip (replace ''add task'' '''' (replace ''new task'' '''' request))"

definition new_task_priority :: "string \<Rightarrow> string" where
  "new_task_priority request =
     (if any_in [''high priority'', ''urgent'', ''important''] request then ''high''
      else if any_in [''low priority'', ''not urgent''] request then ''low''
      else ''medium'')"

definition new_task_branch ::
  "string \<Rightarrow> string \<Rightarrow> write_result \<Rightarrow> string \<Rightarrow> string \<Rightarrow> manager \<Rightarrow> string list \<times> manager"
where
  "new_task_branch now now_s w request follow_up m =
     (let task_text = new_task_text request
      in if task_text \<noteq> [] then
           (let (result, m') = add_task now now_s w task_text (new_task_priority request) None m
            in ([result], m'))
         else if follow_up \<noteq> [] then
           (let (result, m') = add_task now now_s w follow_up ''medium'' None m
            in ([''What task would you like to add?'', result], m'))
         else ([''What task would you like to add?'', ''No task specified.''], m))"

section \<open>Deleting a file with confirmation (file\_manager.py)\<close>

definition folder_mapping :: "(string \<times> string) list" where
  "folder_mapping =
     [(''desktop'', ''~/Desktop''), (''documents'', ''~/Documents''),
      (''downloads'', ''~/Downloads''), (''pictures'', ''~/Pictures''),
      (''music'', ''~/Music''), (''videos'', ''~/Videos'')]"

text \<open>\<open>os.path.expanduser\<close> and \<open>os.path.join\<close> belong to the platform and are
  parameters.\<close>

definition get_full_path :: "(string \<Rightarrow> string) \<Rightarrow> string \<Rightarrow> string" where
  "get_full_path expanduser folder_path =
     (case map_of folder_mapping (lower folder_path) of
        Some p \<Rightarrow> expanduser p
      | None \<Rightarrow> expanduser folder_path)"

text \<open>The file system as the call sees it: what stands at a path (a regular file or a
  directory) and whether it may be read. The size of a file goes into the printed
  question only.\<close>

datatype kind = RegularFile | Directory

type_synonym filesystem = "string \<Rightarrow> (kind \<times> bool) option"

definition validate_path :: "filesystem \<Rightarrow> string \<Rightarrow> bool" where
  "validate_path fs path = (case fs path of None \<Rightarrow> False | Some (k, readable) \<Rightarrow> readable)"

definition isdir :: "filesystem \<Rightarrow> string \<Rightarrow> bool" where
  "isdir fs path = (case fs path of Some (Directory, r) \<Rightarrow> True | _ \<Rightarrow> False)"

text \<open>One listening attempt gives the recognised text or raises.\<close>

datatype heard = Heard string | WaitTimeoutError | UnknownValueError | OtherException

definition yes_words :: "string list" where
  "yes_words = [''yes'', ''yeah'', ''yep'', ''sure'', ''okay'', ''ok'', ''confirm'']"

definition no_words :: "string list" where
  "no_words = [''no'', ''nope'', ''nah'', ''cancel'', ''stop'']"

fun attempts :: "heard list \<Rightarrow> string" where
  "attempts [] = ''no''"
| "attempts (Heard r # hs) =
     (let response = lower r
      in if response \<in> set yes_words then ''yes''
         else if response \<in> set no_words then ''no''
         else attempts hs)"
| "attempts (h # hs) = attempts hs"

definition max_attempts :: nat where
  "max_attempts = 3"

text \<open>\<open>mic k\<close> is what attempt number \<open>k\<close> hears.\<close>

definition listen_for_confirmation :: "(nat \<Rightarrow> heard) \<Rightarrow> string" where
  "listen_for_confirmation mic = attempts (map mic [0..<max_attempts])"

text \<open>What the platform answers to \<open>os.remove\<close> or \<open>shutil.rmtree\<close>, and the calls
  of these two that \<open>delete_item\<close> makes. Console output is not modelled.\<close>

datatype removal = Removed | PermissionError | OtherError string

datatype fs_call = Rmtree string | Remove string

definition quoted :: "string \<Rightarrow> string" where
  "quoted s = [CHR 0x27] @ s @ [CHR 0x27]"

definition delete_item ::
  "(string \<Rightarrow> string) \<Rightarrow> (string \<Rightarrow> string \<Rightarrow> string) \<Rightarrow> filesystem \<Rightarrow> (nat \<Rightarrow> heard) \<Rightarrow>
     removal \<Rightarrow> string \<Rightarrow> string \<Rightarrow> string \<times> fs_call list"
where
  "delete_item expanduser join fs mic answer item_name from_folder =
     (let from_path = join (get_full_path expanduser from_folder) item_name
      in if \<not> validate_path fs from_path then
           (''Error: '' @ quoted item_name @ '' not found in '' @ quoted from_folder @
              '' or path is not accessible.'', [])
         else
           let confirmation = listen_for_confirmation mic
           in if confirmation \<noteq> ''yes'' then (''Delete operation cancelled.'', [])
              else
                let c = (if isdir fs from_path then Rmtree from_path else Remove from_path)
                in case answer of
                     Removed \<Rightarrow>
                       (''Successfully deleted '' @ quoted item_name @ '' from '' @
                          quoted from_folder @ ''.'', [c])
                   | PermissionError \<Rightarrow>
                       (''Error: Permission denied. Cannot delete '' @ quoted item_name @ ''.'',
                        [c])
                   | OtherError e \<Rightarrow>
                       (''Error deleting '' @ quoted item_name @ '': '' @ e, [c]))"

text \<open>An attempt captures an affirmative token, or a negative one, when the lower-cased
  response is one of the accepted words.\<close>

definition affirmative :: "heard \<Rightarrow> bool" where
  "affirmative h = (case h of Heard r \<Rightarrow> lower r \<in> set yes_words | _ \<Rightarrow> False)"

definition negative :: "heard \<Rightarrow> bool" where
  "negative h = (case h of Heard r \<Rightarrow> lower r \<in> set no_words | _ \<Rightarrow> False)"

section \<open>Pending and completed tasks are told apart by their status\<close>



section \<open>Example data\<close>

definition task_rent :: task where
  "task_rent = \<lparr>id_t = 1, text_t = ''pay rent on the 7th'', priority = ''medium'',
                 status = ''pending'', created = ''2024-05-01T09:00:00'', due_date = None,
                 completed_date = None\<rparr>"

definition task_mom :: task where
  "task_mom = \<lparr>id_t = 2, text_t = ''Call Mom'', priority = ''high'',
                status = ''pending'', created = ''2024-05-01T09:30:00'', due_date = None,
                completed_date = None\<rparr>"

definition empty_manager :: manager where
  "empty_manager = \<lparr>self_tasks = new_store ''2024-05-01T08:00:00'' ''2024-05-01T08:00:00'',
                     disk = Missing\<rparr>"

definition two_tasks :: manager where
  "two_tasks = \<lparr>self_tasks = \<lparr>tasks = [task_rent, task_mom], completed = [],
                                created_date = ''2024-05-01T08:00:00'',
                                last_modified = ''2024-05-01T09:30:00''\<rparr>,
                 disk = Missing\<rparr>"




definition home_expand :: "string \<Rightarrow> string" where
  "home_expand p = (case p of c # rest \<Rightarrow> if c = CHR ''~'' then ''/home/user'' @ rest else p | [] \<Rightarrow> p)"

definition unix_join :: "string \<Rightarrow> string \<Rightarrow> string" where
  "unix_join a b = a @ ''/'' @ b"

definition downloads_fs :: filesystem where
  "downloads_fs p =
     (if p = ''/home/user/Downloads/report.docx'' then Some (RegularFile, True) else None)"

definition says_no :: "nat \<Rightarrow> heard" where
  "says_no k = Heard ''no''"

definition says_yes_later :: "nat \<Rightarrow> heard" where
  "says_yes_later k = (if k = 0 then UnknownValueError else if k = 1 then Heard ''maybe'' else Heard ''Yes'')"

section \<open>Facts about the primitives\<close>


lemma py_in_empty: "py_in [] s"
  by (cases s) simp_all


lemma first_index_split:
  "list_all (\<lambda>x. \<not> P x) pre \<Longrightarrow> P t \<Longrightarrow> first_index P (pre @ t # post) = Some (length pre)"
  by (induction pre) auto

lemma first_index_Some:
  "first_index P xs = Some i \<Longrightarrow>
     i < length xs \<and> P (xs ! i) \<and> list_all (\<lambda>x. \<not> P x) (take i xs)"
proof (induction xs arbitrary: i)
  case Nil
  then show ?case by simp
next
  case (Cons x xs)
  show ?case
  proof (cases "P x")
    case True
    with Cons.prems show ?thesis by simp
  next
    case False
    with Cons.prems obtain j where j: "first_index P xs = Some j" "i = Suc j"
      by auto
    from Cons.IH [OF j(1)] False j(2) show ?thesis by simp
  qed
qed

lemma pop_split: "pop (length pre) (pre @ t # post) = pre @ post"
  by (simp add: pop_def)

lemma save_tasks_store:
  "self_tasks (snd (save_tasks now w m)) = (self_tasks m)\<lparr>last_modified := now\<rparr>"
  by (simp add: save_tasks_def Let_def split: write_result.split)

lemma save_tasks_ok: "fst (save_tasks now w m) \<longleftrightarrow> w = Written"
  by (simp add: save_tasks_def Let_def split: write_result.split)

lemma delete_at_split:
  assumes "tasks (self_tasks m) = pre @ t # post"
  shows "delete_at now w (length pre) m =
           (''Task deleted: '' @ text_t t,
            snd (save_tasks now w (m\<lparr>self_tasks := (self_tasks m)\<lparr>tasks := pre @ post\<rparr>\<rparr>)))"
  using assms by (simp add: delete_at_def Let_def pop_split case_prod_beta)

lemma complete_at_split:
  assumes "tasks (self_tasks m) = pre @ t # post"
    and "t' = t\<lparr>status := ''completed'', completed_date := Some now\<rparr>"
    and "t' \<notin> set pre"
  shows "complete_at now now_s w (length pre) m =
           (''Task completed: '' @ text_t t,
            snd (save_tasks now_s w
                   (m\<lparr>self_tasks := (self_tasks m)\<lparr>completed := completed (self_tasks m) @ [t'],
                                                     tasks := pre @ post\<rparr>\<rparr>)))"
proof -
  have "remove1 t' (pre @ t' # post) = pre @ post"
    using assms(3) by (simp add: remove1_append)
  then show ?thesis
    using assms(1,2) by (simp add: complete_at_def Let_def case_prod_beta)
qed

section \<open>Clearing the completed tasks\<close>

text \<open>
  C10. \<open>clear_completed_tasks\<close> empties the completed list and nothing else of the store
  but the modification stamp: the pending list and the creation stamp stay as they were,
  and the message carries the number of tasks that were cleared.
\<close>

theorem clear_completed_frame:
  "tasks (self_tasks (snd (clear_completed_tasks now w m))) = tasks (self_tasks m) \<and>
   created_date (self_tasks (snd (clear_completed_tasks now w m))) = created_date (self_tasks m) \<and>
   completed (self_tasks (snd (clear_completed_tasks now w m))) = [] \<and>
   fst (clear_completed_tasks now w m) =
     ''Cleared '' @ py_str (length (completed (self_tasks m))) @ '' completed task'' @
       (if length (completed (self_tasks m)) = 1 then '''' else ''s'') @ ''.''"
proof -
  have after: "self_tasks (snd (clear_completed_tasks now w m)) =
      (self_tasks m)\<lparr>completed := [], last_modified := now\<rparr>"
    by (simp add: clear_completed_tasks_def Let_def case_prod_beta save_tasks_store)
  have message: "fst (clear_completed_tasks now w m) =
      ''Cleared '' @ py_str (length (completed (self_tasks m))) @ '' completed task'' @
        (if length (completed (self_tasks m)) = 1 then '''' else ''s'') @ ''.''"
    by (simp add: clear_completed_tasks_def Let_def case_prod_beta)
  show ?thesis
    by (simp add: after message)
qed

section \<open>Resolving an identifier\<close>

lemma complete_at_first:
  assumes "first_index P (tasks (self_tasks m)) = Some i"
    and "\<And>t. P (t\<lparr>status := ''completed'', completed_date := Some now\<rparr>) = P t"
  shows "complete_at now now_s w i m =
           (''Task completed: '' @ text_t (tasks (self_tasks m) ! i),
            snd (save_tasks now_s w
                   (m\<lparr>self_tasks := (self_tasks m)
                        \<lparr>completed := completed (self_tasks m) @
                           [(tasks (self_tasks m) ! i)\<lparr>status := ''completed'',
                                                      completed_date := Some now\<rparr>],
                         tasks := pop i (tasks (self_tasks m))\<rparr>\<rparr>)))"
proof -
  let ?ts = "tasks (self_tasks m)"
  let ?t' = "(?ts ! i)\<lparr>status := ''completed'', completed_date := Some now\<rparr>"
  from first_index_Some [OF assms(1)]
  have i: "i < length ?ts" and hit: "P (?ts ! i)"
    and miss: "list_all (\<lambda>x. \<not> P x) (take i ?ts)"
    by simp_all
  have split: "?ts = take i ?ts @ (?ts ! i) # drop (Suc i) ?ts"
    using i by (simp add: id_take_nth_drop [symmetric])
  have "P ?t'"
    using hit assms(2) by simp
  with miss have fresh: "?t' \<notin> set (take i ?ts)"
    by (auto simp: list_all_iff)
  have len: "length (take i ?ts) = i"
    using i by simp
  from complete_at_split [OF split refl fresh, of now_s w] len
  show ?thesis
    by (simp add: pop_def)
qed


lemma delete_task_by_text:
  assumes "py_int ident = None" and "tasks (self_tasks m) = pre @ t # post"
    and "list_all (\<lambda>u. \<not> py_in (lower ident) (lower (text_t u))) pre"
    and "py_in (lower ident) (lower (text_t t))"
  shows "delete_task now w ident m =
           (''Task deleted: '' @ text_t t,
            snd (save_tasks now w (m\<lparr>self_tasks := (self_tasks m)\<lparr>tasks := pre @ post\<rparr>\<rparr>)))"
proof -
  have "first_index (\<lambda>u. py_in (lower ident) (lower (text_t u))) (tasks (self_tasks m))
          = Some (length pre)"
    using assms(2-4) by (simp add: first_index_split)
  then show ?thesis
    using assms(1) delete_at_split [OF assms(2)] by (simp add: delete_task_def)
qed


lemma complete_task_by_text:
  assumes "py_int ident = None" and "tasks (self_tasks m) = pre @ t # post"
    and "list_all (\<lambda>u. \<not> py_in (lower ident) (lower (text_t u))) pre"
    and "py_in (lower ident) (lower (text_t t))"
  shows "complete_task now now_s w ident m =
           (''Task completed: '' @ text_t t,
            snd (save_tasks now_s w
                   (m\<lparr>self_tasks := (self_tasks m)
                        \<lparr>completed := completed (self_tasks m) @
                           [t\<lparr>status := ''completed'', completed_date := Some now\<rparr>],
                         tasks := pre @ post\<rparr>\<rparr>)))"
proof -
  have first: "first_index (\<lambda>u. py_in (lower ident) (lower (text_t u))) (tasks (self_tasks m))
                 = Some (length pre)"
    using assms(2-4) by (simp add: first_index_split)
  from complete_at_first [OF first, of now now_s w]
  have "complete_at now now_s w (length pre) m =
          (''Task completed: '' @ text_t t,
           snd (save_tasks now_s w
                  (m\<lparr>self_tasks := (self_tasks m)
                       \<lparr>completed := completed (self_tasks m) @
                          [t\<lparr>status := ''completed'', completed_date := Some now\<rparr>],
                        tasks := pre @ post\<rparr>\<rparr>)))"
    using assms(2) by (simp add: pop_split)
  then show ?thesis
    using assms(1) first by (simp add: complete_task_def)
qed




text \<open>The equations that evaluate the string primitives on literals.\<close>

lemmas str_eval = lower_def lower_char_def strip_def lstrip_def rstrip_def is_space_def
  py_int_def digit_val_def sublist_code


section \<open>The empty identifier\<close>

text \<open>
  C9. An identifier that is not an integer and is empty in lower case (the empty string)
  is contained in every text, so with a non-empty pending list \<open>delete_task\<close> removes
  the first pending task and \<open>complete_task\<close> completes it; neither answers "not found".
\<close>

theorem empty_identifier_first_task:
  assumes "py_int ident = None" and "lower ident = []"
    and "tasks (self_tasks m) = t # ts"
  shows "fst (delete_task now w ident m) = ''Task deleted: '' @ text_t t \<and>
         tasks (self_tasks (snd (delete_task now w ident m))) = ts \<and>
         completed (self_tasks (snd (delete_task now w ident m))) = completed (self_tasks m) \<and>
         fst (complete_task now now_s w ident m) = ''Task completed: '' @ text_t t \<and>
         tasks (self_tasks (snd (complete_task now now_s w ident m))) = ts \<and>
         completed (self_tasks (snd (complete_task now now_s w ident m))) =
           completed (self_tasks m) @ [t\<lparr>status := ''completed'', completed_date := Some now\<rparr>]"
proof -
  have split: "tasks (self_tasks m) = [] @ t # ts"
    using assms(3) by simp
  have none_before: "list_all (\<lambda>u. \<not> py_in (lower ident) (lower (text_t u))) []"
    by simp
  have hit: "py_in (lower ident) (lower (text_t t))"
    using assms(2) by (simp add: py_in_empty)
  note d = delete_task_by_text [OF assms(1) split none_before hit, of now w]
  note c = complete_task_by_text [OF assms(1) split none_before hit, of now now_s w]
  show ?thesis
    by (simp add: d c save_tasks_store)
qed

theorem empty_identifier_first_task_witness:
  "py_int '''' = None \<and> lower '''' = [] \<and> tasks (self_tasks two_tasks) = task_rent # [task_mom] \<and>
   fst (delete_task ''2024-05-02T10:00:00'' Written '''' two_tasks)
     = ''Task deleted: pay rent on the 7th'' \<and>
   tasks (self_tasks (snd (delete_task ''2024-05-02T10:00:00'' Written '''' two_tasks))) = [task_mom] \<and>
   fst (complete_task ''2024-05-02T10:00:00'' ''2024-05-02T10:00:01'' Written '''' two_tasks)
     = ''Task completed: pay rent on the 7th'' \<and>
   tasks (self_tasks (snd (complete_task ''2024-05-02T10:00:00'' ''2024-05-02T10:00:01'' Written ''''
     two_tasks))) = [task_mom] \<and>
   completed (self_tasks (snd (complete_task ''2024-05-02T10:00:00'' ''2024-05-02T10:00:01'' Written ''''
     two_tasks))) = [task_rent\<lparr>status := ''completed'', completed_date := Some ''2024-05-02T10:00:00''\<rparr>]"
proof -
  have hyps: "py_int '''' = None \<and> lower '''' = [] \<and>
      tasks (self_tasks two_tasks) = task_rent # [task_mom]"
    by (simp add: str_eval two_tasks_def)
  from hyps empty_identifier_first_task [of "''''" two_tasks task_rent "[task_mom]"
      "''2024-05-02T10:00:00''" Written "''2024-05-02T10:00:01''"]
  show ?thesis
    by (simp add: two_tasks_def task_rent_def)
qed

section \<open>Searching\<close>


section \<open>What each operation does to the store\<close>

lemma add_task_store:
  "self_tasks (snd (add_task now now_s w task_text prio due m)) =
     (if strip task_text = [] then self_tasks m
      else (self_tasks m)
        \<lparr>tasks := tasks (self_tasks m) @
           [\<lparr>id_t = int (length (tasks (self_tasks m))) + 1, text_t = strip task_text,
             priority = lower prio, status = ''pending'', created = now, due_date = due,
             completed_date = None\<rparr>],
         last_modified := now_s\<rparr>)"
  by (simp add: add_task_def Let_def case_prod_beta save_tasks_store)









section \<open>Completing a task\<close>



section \<open>Adding a task\<close>












section \<open>Saving and loading\<close>

text \<open>Strings: what \<open>escape_char\<close> writes for a character, \<open>parse_chars\<close> reads as
  that character.\<close>

lemma hex_val_hex_char: "d < 16 \<Longrightarrow> hex_val (hex_char d) = Some d"
proof -
  assume "d < 16"
  moreover have "list_all (\<lambda>d. hex_val (hex_char d) = Some d) [0..<16]"
    by code_simp
  ultimately show ?thesis
    by (simp add: list_all_iff)
qed

lemma control_code:
  assumes "(of_char c :: nat) < 32"
  shows "hex4 CHR ''0'' CHR ''0'' (hex_char (of_char c div 16)) (hex_char (of_char c mod 16))
           = Some (of_char c)"
proof -
  let ?n = "of_char c :: nat"
  have "?n div 16 < 16" "?n mod 16 < 16"
    using assms by simp_all
  then have "hex_val (hex_char (?n div 16)) = Some (?n div 16)"
    "hex_val (hex_char (?n mod 16)) = Some (?n mod 16)"
    by (simp_all add: hex_val_hex_char)
  moreover have "hex_val CHR ''0'' = Some 0"
    by (simp add: hex_val_def)
  ultimately show ?thesis
    by (simp add: hex4_def)
qed

lemma parse_escaped_char:
  "parse_chars (escape_char c @ t) = cons_char c (parse_chars t)"
proof -
  consider (quote) "c = CHR 0x22" | (backslash) "c = CHR 0x5C" | (nl) "c = CHR 0x0A"
    | (cr) "c = CHR 0x0D" | (tab) "c = CHR 0x09" | (bs) "c = CHR 0x08" | (ff) "c = CHR 0x0C"
    | (control) "c \<notin> {CHR 0x22, CHR 0x5C, CHR 0x0A, CHR 0x0D, CHR 0x09, CHR 0x08, CHR 0x0C}"
        "(of_char c :: nat) < 32"
    | (plain) "c \<notin> {CHR 0x22, CHR 0x5C, CHR 0x0A, CHR 0x0D, CHR 0x09, CHR 0x08, CHR 0x0C}"
        "\<not> (of_char c :: nat) < 32"
    by blast
  then show ?thesis
  proof cases
    case control
    then have "escape_char c = [CHR 0x5C, CHR ''u'', CHR ''0'', CHR ''0'',
        hex_char (of_char c div 16), hex_char (of_char c mod 16)]"
      by (simp add: escape_char_def)
    moreover have "(of_char c :: nat) < 256"
      using control(2) by simp
    ultimately show ?thesis
      using control_code [OF control(2)] by simp
  next
    case plain
    then show ?thesis by (simp add: escape_char_def)
  qed (simp_all add: escape_char_def unescape_def)
qed

lemma parse_dumped_chars:
  "parse_chars (concat (map escape_char s) @ CHR 0x22 # rest) = Some (s, rest)"
  by (induction s) (simp_all add: parse_escaped_char cons_char_def)

text \<open>Integers: \<open>py_str\<close> writes the decimal digits of a number, without a leading zero,
  and \<open>parse_number\<close> reads them back when no digit or fraction follows.\<close>

lemma digit_chars:
  "list_all (\<lambda>d. digit_val (digit_char d) = Some (int d) \<and> (digit_char d = CHR ''0'' \<longleftrightarrow> d = 0) \<and>
      digit_char d \<notin> {CHR ''-'', CHR ''{'', CHR ''['', CHR 0x22, CHR ''n'', CHR ''t'', CHR ''f''} \<and>
      \<not> is_ws (digit_char d))
    [0..<10]"
  by code_simp

lemma digit_char_facts:
  assumes "d < 10"
  shows "digit_val (digit_char d) = Some (int d)" and "digit_char d = CHR ''0'' \<longleftrightarrow> d = 0"
    and "digit_char d \<notin> {CHR ''-'', CHR ''{'', CHR ''['', CHR 0x22, CHR ''n'', CHR ''t'', CHR ''f''}"
    and "\<not> is_ws (digit_char d)" and "is_digit (digit_char d)"
  using assms digit_chars by (simp_all add: list_all_iff is_digit_def)

lemma py_str_small: "n < 10 \<Longrightarrow> py_str n = [digit_char n]"
  by (subst py_str.simps) simp

lemma py_str_big: "\<not> n < 10 \<Longrightarrow> py_str n = py_str (n div 10) @ [digit_char (n mod 10)]"
  by (subst py_str.simps) simp

lemma dec_val_snoc:
  "dec_val (ds @ [c]) = 10 * dec_val ds + (case digit_val c of Some d \<Rightarrow> d | None \<Rightarrow> 0)"
  by (simp add: dec_val_def)

lemma py_str_digits: "list_all is_digit (py_str n)"
proof (induction n rule: py_str.induct)
  case (1 n)
  show ?case
  proof (cases "n < 10")
    case True
    then show ?thesis by (simp add: py_str_small digit_char_facts)
  next
    case False
    with 1 show ?thesis
      by (simp add: py_str_big digit_char_facts)
  qed
qed

lemma py_str_value: "dec_val (py_str n) = int n"
proof (induction n rule: py_str.induct)
  case (1 n)
  show ?case
  proof (cases "n < 10")
    case True
    then show ?thesis by (simp add: py_str_small digit_char_facts dec_val_def)
  next
    case False
    with 1 show ?thesis
      by (simp add: py_str_big dec_val_snoc digit_char_facts of_nat_mod of_nat_div)
  qed
qed

lemma py_str_head:
  "\<exists>d ds. py_str n = d # ds \<and> is_digit d \<and> (d = CHR ''0'' \<longrightarrow> n = 0 \<and> ds = [])"
proof (induction n rule: py_str.induct)
  case (1 n)
  show ?case
  proof (cases "n < 10")
    case True
    then show ?thesis by (simp add: py_str_small digit_char_facts)
  next
    case False
    then have unfold: "py_str n = py_str (n div 10) @ [digit_char (n mod 10)]"
      by (rule py_str_big)
    from 1 False obtain d ds where
      d: "py_str (n div 10) = d # ds" "is_digit d" "d = CHR ''0'' \<longrightarrow> n div 10 = 0 \<and> ds = []"
      by auto
    from False have "n div 10 \<noteq> 0" by simp
    with d unfold show ?thesis by auto
  qed
qed

lemma parse_digits_py_str:
  assumes "value_end rest"
  shows "parse_digits neg (py_str n @ rest) = Some (JInt (if neg then - int n else int n), rest)"
proof -
  from py_str_head [of n] obtain d ds where
    d: "py_str n = d # ds" "is_digit d" "d = CHR ''0'' \<longrightarrow> n = 0 \<and> ds = []"
    by blast
  have all: "list_all is_digit ds"
    using py_str_digits [of n] d(1) by simp
  have stop: "takeWhile is_digit (ds @ rest) = ds" "dropWhile is_digit (ds @ rest) = rest"
    using all assms
    by (auto simp: value_end_def list_all_iff takeWhile_append dropWhile_append
        split: list.splits)
  have val: "dec_val (d # ds) = int n"
    using py_str_value [of n] d(1) by simp
  show ?thesis
  proof (cases "d = CHR ''0''")
    case True
    with d assms val show ?thesis
      by (simp add: parse_digits_def value_end_def)
  next
    case False
    with d assms val stop show ?thesis
      by (simp add: parse_digits_def value_end_def Let_def)
  qed
qed

lemma parse_number_dump_int:
  assumes "value_end rest"
  shows "parse_number (dump_int i @ rest) = Some (JInt i, rest)"
proof (cases "i < 0")
  case True
  then show ?thesis
    using parse_digits_py_str [OF assms, of True "nat (- i)"]
    by (simp add: parse_number_def dump_int_def)
next
  case False
  from py_str_head [of "nat i"] obtain d ds where
    d: "py_str (nat i) = d # ds" "is_digit d"
    by blast
  then have "d \<noteq> CHR ''-''"
    by (auto simp: is_digit_def digit_val_def)
  with False d(1) show ?thesis
    using parse_digits_py_str [OF assms, of False "nat i"]
    by (simp add: parse_number_def dump_int_def)
qed

text \<open>White space before a value, an item or a member is skipped.\<close>

lemma skip_ws_indent: "skip_ws (newline_indent k @ s) = skip_ws s"
  by (simp add: skip_ws_def newline_indent_def is_ws_def dropWhile_append)

lemma skip_ws_space: "skip_ws (CHR '' '' # s) = skip_ws s"
  by (simp add: skip_ws_def is_ws_def)

lemma skip_ws_stop: "\<not> is_ws c \<Longrightarrow> skip_ws (c # s) = c # s"
  by (simp add: skip_ws_def)

lemma parse_value_ws: "skip_ws s = skip_ws s' \<Longrightarrow> parse_value n s = parse_value n s'"
  by (cases n) simp_all

lemma parse_items_ws: "skip_ws s = skip_ws s' \<Longrightarrow> parse_items n s = parse_items n s'"
  by (cases n) (simp_all add: parse_value_ws [of s s'])

lemma parse_members_ws: "skip_ws s = skip_ws s' \<Longrightarrow> parse_members n s = parse_members n s'"
  by (cases n) simp_all

lemma dump_int_head:
  "dump_int i \<noteq> []" "\<not> is_ws (hd (dump_int i))"
  "hd (dump_int i) \<noteq> CHR ''{''" "hd (dump_int i) \<noteq> CHR ''[''" "hd (dump_int i) \<noteq> CHR 0x22"
  "hd (dump_int i) \<noteq> CHR ''n''" "hd (dump_int i) \<noteq> CHR ''t''" "hd (dump_int i) \<noteq> CHR ''f''"
  "hd (dump_int i) \<noteq> CHR '']''" "hd (dump_int i) \<noteq> CHR ''}''"
proof -
  from py_str_head obtain d ds where d: "py_str (nat \<bar>i\<bar>) = d # ds" "is_digit d"
    by blast
  have "hd (dump_int i) = CHR ''-'' \<or> hd (dump_int i) = d"
    using d(1) by (cases "i < 0") (simp_all add: dump_int_def)
  moreover have "\<not> is_ws d" "d \<noteq> CHR ''{''" "d \<noteq> CHR ''[''" "d \<noteq> CHR 0x22" "d \<noteq> CHR ''n''"
    "d \<noteq> CHR ''t''" "d \<noteq> CHR ''f''" "d \<noteq> CHR '']''" "d \<noteq> CHR ''}''"
    using d(2) by (auto simp: is_digit_def digit_val_def is_ws_def)
  ultimately show "\<not> is_ws (hd (dump_int i))"
    "hd (dump_int i) \<noteq> CHR ''{''" "hd (dump_int i) \<noteq> CHR ''[''" "hd (dump_int i) \<noteq> CHR 0x22"
    "hd (dump_int i) \<noteq> CHR ''n''" "hd (dump_int i) \<noteq> CHR ''t''" "hd (dump_int i) \<noteq> CHR ''f''"
    "hd (dump_int i) \<noteq> CHR '']''" "hd (dump_int i) \<noteq> CHR ''}''"
    by (auto simp: is_ws_def)
  show "dump_int i \<noteq> []"
    using d(1) by (cases "i < 0") (simp_all add: dump_int_def)
qed

text \<open>The first character of a dumped value opens no closing bracket and is no white space.\<close>

lemma dumps_head:
  "\<exists>c cs. dumps level j = c # cs \<and> \<not> is_ws c \<and> c \<noteq> CHR '']'' \<and> c \<noteq> CHR ''}''"
proof (cases j)
  case (JInt i)
  obtain c cs where "dump_int i = c # cs"
    using dump_int_head(1) [of i] by (cases "dump_int i") auto
  with dump_int_head [of i] JInt show ?thesis by simp
qed (auto simp: is_ws_def dump_str_def)

lemma value_end_simps:
  "value_end []" "value_end (CHR '','' # s)" "value_end (newline_indent k @ s)"
  by (simp_all add: value_end_def starts_fraction_def newline_indent_def is_digit_def
      digit_val_def)

text \<open>The four kinds of scalar values.\<close>

lemma parse_null: "parse_value (Suc m) (dumps level JNull @ rest) = Some (JNull, rest)"
  by (simp add: skip_ws_stop is_ws_def)

lemma parse_bool: "parse_value (Suc m) (dumps level (JBool b) @ rest) = Some (JBool b, rest)"
  by (simp add: skip_ws_stop is_ws_def)

lemma parse_int:
  assumes "value_end rest"
  shows "parse_value (Suc m) (dumps level (JInt i) @ rest) = Some (JInt i, rest)"
proof -
  obtain c cs where c: "dump_int i = c # cs"
    using dump_int_head(1) [of i] by (cases "dump_int i") auto
  note h = dump_int_head [of i, unfolded c list.sel]
  have skip: "skip_ws (dump_int i @ rest) = c # cs @ rest"
    using c h(2) by (simp add: skip_ws_stop)
  have no: "\<not> prefix ''null'' (c # cs @ rest)"
    "\<not> prefix ''true'' (c # cs @ rest)" "\<not> prefix ''false'' (c # cs @ rest)"
    using h by simp_all
  have "parse_value (Suc m) (dump_int i @ rest) = parse_number (c # cs @ rest)"
    by (simp only: parse_value.simps skip list.case no h if_False)
  also have "\<dots> = parse_number (dump_int i @ rest)"
    by (simp only: c append_Cons)
  also have "\<dots> = Some (JInt i, rest)"
    by (rule parse_number_dump_int [OF assms])
  finally show ?thesis
    by (simp only: dumps.simps)
qed

lemma parse_str: "parse_value (Suc m) (dumps level (JStr s) @ rest) = Some (JStr s, rest)"
proof -
  have "parse_chars (concat (map escape_char s) @ CHR 0x22 # rest) = Some (s, rest)"
    by (rule parse_dumped_chars)
  then show ?thesis
    by (simp add: dump_str_def skip_ws_stop is_ws_def)
qed

text \<open>Arrays and objects. Members with distinct keys are kept as they are read.\<close>

lemma dict_put_fresh: "k \<notin> fst ` set d \<Longrightarrow> dict_put d k v = d @ [(k, v)]"
  by (induction d) auto

lemma dict_fold_distinct:
  "distinct (map fst (d @ kvs)) \<Longrightarrow>
     foldl (\<lambda>d kv. dict_put d (fst kv) (snd kv)) d kvs = d @ kvs"
proof (induction kvs arbitrary: d)
  case Nil
  show ?case by simp
next
  case (Cons kv kvs)
  from Cons.prems have "fst kv \<notin> fst ` set d"
    by auto
  then have "dict_put d (fst kv) (snd kv) = d @ [kv]"
    by (simp add: dict_put_fresh)
  moreover from Cons.prems have "distinct (map fst ((d @ [kv]) @ kvs))"
    by simp
  ultimately show ?case
    using Cons.IH [of "d @ [kv]"] by simp
qed

lemma dict_of_distinct: "distinct (map fst kvs) \<Longrightarrow> dict_of kvs = kvs"
  using dict_fold_distinct [of "[]" kvs] by (simp add: dict_of_def)

lemma parse_items_dumped:
  assumes "\<And>x lvl r n. x \<in> set xs \<Longrightarrow> wf_json x \<Longrightarrow> value_end r \<Longrightarrow> cost x < n \<Longrightarrow>
             parse_value n (dumps lvl x @ r) = Some (x, r)"
    and "xs \<noteq> []" and "list_all wf_json xs"
    and "sum_list (map (\<lambda>x. Suc (cost x)) xs) < n"
  shows "parse_items n
           (join_with (CHR '','' # newline_indent l') (map (dumps l') xs) @
              newline_indent l @ CHR '']'' # rest) = Some (xs, rest)"
  using assms
proof (induction xs arbitrary: n)
  case Nil
  then show ?case by simp
next
  case (Cons x xs)
  from Cons.prems(4) obtain m where n: "n = Suc m" and m: "cost x < m"
    by (cases n) auto
  have wf: "wf_json x"
    using Cons.prems(3) by simp
  show ?case
  proof (cases xs)
    case Nil
    have "parse_value m (dumps l' x @ newline_indent l @ CHR '']'' # rest)
        = Some (x, newline_indent l @ CHR '']'' # rest)"
      by (rule Cons.prems(1)) (simp_all add: wf m value_end_simps)
    then show ?thesis
      by (simp add: n Nil skip_ws_indent skip_ws_stop is_ws_def)
  next
    case (Cons y ys)
    let ?tail = "join_with (CHR '','' # newline_indent l') (map (dumps l') xs) @
        newline_indent l @ CHR '']'' # rest"
    have first: "parse_value m (dumps l' x @ CHR '','' # newline_indent l' @ ?tail)
        = Some (x, CHR '','' # newline_indent l' @ ?tail)"
      by (rule Cons.prems(1)) (simp_all add: wf m value_end_simps)
    have "parse_items m ?tail = Some (xs, rest)"
    proof (rule Cons.IH)
      show "xs \<noteq> []" using Cons by simp
      show "list_all wf_json xs" using Cons.prems(3) by simp
      show "sum_list (map (\<lambda>x. Suc (cost x)) xs) < m"
        using Cons.prems(4) n by simp
    next
      fix z lvl r k
      assume "z \<in> set xs" "wf_json z" "value_end r" "cost z < k"
      then show "parse_value k (dumps lvl z @ r) = Some (z, r)"
        using Cons.prems(1) [of z r k lvl] by simp
    qed
    moreover have "parse_items m (newline_indent l' @ ?tail) = parse_items m ?tail"
      by (rule parse_items_ws) (simp add: skip_ws_indent)
    ultimately have rest: "parse_items m (newline_indent l' @ ?tail) = Some (xs, rest)"
      by simp
    have "join_with (CHR '','' # newline_indent l') (map (dumps l') (x # xs)) @
        newline_indent l @ CHR '']'' # rest
        = dumps l' x @ CHR '','' # newline_indent l' @ ?tail"
      using Cons by simp
    then show ?thesis
      using first rest by (simp add: n skip_ws_stop is_ws_def)
  qed
qed

lemma parse_members_dumped:
  assumes "\<And>kv lvl r n. kv \<in> set kvs \<Longrightarrow> wf_json (snd kv) \<Longrightarrow> value_end r \<Longrightarrow>
             cost (snd kv) < n \<Longrightarrow> parse_value n (dumps lvl (snd kv) @ r) = Some (snd kv, r)"
    and "kvs \<noteq> []" and "list_all (\<lambda>kv. wf_json (snd kv)) kvs"
    and "sum_list (map (\<lambda>kv. Suc (cost (snd kv))) kvs) < n"
  shows "parse_members n
           (join_with (CHR '','' # newline_indent l')
              (map (\<lambda>kv. dump_str (fst kv) @ '': '' @ dumps l' (snd kv)) kvs) @
              newline_indent l @ CHR ''}'' # rest) = Some (kvs, rest)"
  using assms
proof (induction kvs arbitrary: n)
  case Nil
  then show ?case by simp
next
  case (Cons kv kvs)
  obtain k v where kv: "kv = (k, v)"
    by (cases kv)
  from Cons.prems(4) obtain m where n: "n = Suc m" and m: "cost v < m"
    by (cases n) (auto simp: kv)
  have wf: "wf_json v"
    using Cons.prems(3) by (simp add: kv)
  have member: "\<And>r. value_end r \<Longrightarrow>
      parse_members (Suc m) ((dump_str k @ '': '' @ dumps l' v) @ r) =
        (case skip_ws r of
           [] \<Rightarrow> None
         | c # cs \<Rightarrow>
             if c = CHR '','' then
               map_option (\<lambda>(kvs, r). ((k, v) # kvs, r)) (parse_members m cs)
             else if c = CHR ''}'' then Some ([(k, v)], cs)
             else None)"
  proof -
    fix r assume r: "value_end r"
    have key: "parse_chars (concat (map escape_char k) @ CHR 0x22 # '': '' @ dumps l' v @ r)
        = Some (k, '': '' @ dumps l' v @ r)"
      by (rule parse_dumped_chars)
    have "parse_value m (dumps l' (snd kv) @ r) = Some (snd kv, r)"
      by (rule Cons.prems(1)) (simp_all add: kv wf m r)
    moreover have "parse_value m (CHR '' '' # dumps l' v @ r) = parse_value m (dumps l' v @ r)"
      by (rule parse_value_ws) (simp add: skip_ws_space)
    ultimately have val: "parse_value m (CHR '' '' # dumps l' v @ r) = Some (v, r)"
      by (simp add: kv)
    show "parse_members (Suc m) ((dump_str k @ '': '' @ dumps l' v) @ r) =
        (case skip_ws r of
           [] \<Rightarrow> None
         | c # cs \<Rightarrow>
             if c = CHR '','' then
               map_option (\<lambda>(kvs, r). ((k, v) # kvs, r)) (parse_members m cs)
             else if c = CHR ''}'' then Some ([(k, v)], cs)
             else None)"
      using key val by (simp add: dump_str_def skip_ws_stop is_ws_def)
  qed
  show ?case
  proof (cases kvs)
    case Nil
    from member [of "newline_indent l @ CHR ''}'' # rest"] show ?thesis
      by (simp add: n Nil kv value_end_simps skip_ws_indent skip_ws_stop is_ws_def)
  next
    case (Cons kv' kvs')
    let ?tail = "join_with (CHR '','' # newline_indent l')
        (map (\<lambda>kv. dump_str (fst kv) @ '': '' @ dumps l' (snd kv)) kvs) @
        newline_indent l @ CHR ''}'' # rest"
    have "parse_members m ?tail = Some (kvs, rest)"
    proof (rule Cons.IH)
      show "kvs \<noteq> []" using Cons by simp
      show "list_all (\<lambda>kv. wf_json (snd kv)) kvs" using Cons.prems(3) by simp
      show "sum_list (map (\<lambda>kv. Suc (cost (snd kv))) kvs) < m"
        using Cons.prems(4) n by simp
    next
      fix z lvl r i
      assume "z \<in> set kvs" "wf_json (snd z)" "value_end r" "cost (snd z) < i"
      then show "parse_value i (dumps lvl (snd z) @ r) = Some (snd z, r)"
        using Cons.prems(1) [of z r i lvl] by simp
    qed
    moreover have "parse_members m (newline_indent l' @ ?tail) = parse_members m ?tail"
      by (rule parse_members_ws) (simp add: skip_ws_indent)
    ultimately have rest: "parse_members m (newline_indent l' @ ?tail) = Some (kvs, rest)"
      by simp
    have "join_with (CHR '','' # newline_indent l')
        (map (\<lambda>kv. dump_str (fst kv) @ '': '' @ dumps l' (snd kv)) (kv # kvs)) @
        newline_indent l @ CHR ''}'' # rest
        = (dump_str k @ '': '' @ dumps l' v) @ CHR '','' # newline_indent l' @ ?tail"
      using Cons by (simp add: kv)
    then show ?thesis
      using member [of "CHR '','' # newline_indent l' @ ?tail"] rest
      by (simp add: n kv value_end_simps skip_ws_stop is_ws_def)
  qed
qed

lemma join_head: "ys \<noteq> [] \<Longrightarrow> \<exists>t. join_with sep ys = hd ys @ t"
  by (induction sep ys rule: join_with.induct) simp_all

lemma skip_ws_dumps: "skip_ws (dumps level j @ s) = dumps level j @ s"
  using dumps_head [of level j] by (auto simp: skip_ws_stop)

lemma parse_value_dumps:
  "wf_json j \<Longrightarrow> value_end rest \<Longrightarrow> cost j < n \<Longrightarrow>
     parse_value n (dumps level j @ rest) = Some (j, rest)"
proof (induction j arbitrary: level rest n)
  case JNull
  then obtain m where "n = Suc m" by (cases n) auto
  then show ?case by (simp only: parse_null)
next
  case (JBool b)
  then obtain m where "n = Suc m" by (cases n) auto
  then show ?case by (simp only: parse_bool)
next
  case (JInt i)
  then obtain m where "n = Suc m" by (cases n) auto
  with JInt.prems(2) show ?case by (simp only: parse_int)
next
  case (JStr s)
  then obtain m where "n = Suc m" by (cases n) auto
  then show ?case by (simp only: parse_str)
next
  case (JArr xs)
  from JArr.prems(3) obtain m where n: "n = Suc m"
    and m: "sum_list (map (\<lambda>x. Suc (cost x)) xs) < m"
    by (cases n) auto
  show ?case
  proof (cases "xs = []")
    case True
    then show ?thesis
      by (simp add: n skip_ws_stop is_ws_def)
  next
    case False
    let ?items = "join_with (CHR '','' # newline_indent (Suc level)) (map (dumps (Suc level)) xs) @
        newline_indent level @ CHR '']'' # rest"
    have items: "parse_items m ?items = Some (xs, rest)"
    proof (rule parse_items_dumped)
      show "xs \<noteq> []" by (rule False)
      show "list_all wf_json xs" using JArr.prems(1) by simp
      show "sum_list (map (\<lambda>x. Suc (cost x)) xs) < m" by (rule m)
    next
      fix x lvl r k
      assume "x \<in> set xs" "wf_json x" "value_end r" "cost x < k"
      then show "parse_value k (dumps lvl x @ r) = Some (x, r)"
        by (rule JArr.IH)
    qed
    have "parse_items m (newline_indent (Suc level) @ ?items) = parse_items m ?items"
      by (rule parse_items_ws) (simp add: skip_ws_indent)
    with items have inner: "parse_items m (newline_indent (Suc level) @ ?items) = Some (xs, rest)"
      by simp
    from False obtain t where "join_with (CHR '','' # newline_indent (Suc level))
        (map (dumps (Suc level)) xs) = dumps (Suc level) (hd xs) @ t"
      using join_head [of "map (dumps (Suc level)) xs" "CHR '','' # newline_indent (Suc level)"]
      by (auto simp: hd_map)
    then have "skip_ws (newline_indent (Suc level) @ ?items) =
        dumps (Suc level) (hd xs) @ t @ newline_indent level @ CHR '']'' # rest"
      by (simp add: skip_ws_indent skip_ws_dumps)
    with dumps_head [of "Suc level" "hd xs"] obtain d ds where
      "skip_ws (newline_indent (Suc level) @ ?items) = d # ds" "d \<noteq> CHR '']''"
      by auto
    then show ?thesis
      using False inner by (simp add: n skip_ws_stop is_ws_def)
  qed
next
  case (JObj kvs)
  from JObj.prems(3) obtain m where n: "n = Suc m"
    and m: "sum_list (map (\<lambda>kv. Suc (cost (snd kv))) kvs) < m"
    by (cases n) auto
  show ?case
  proof (cases "kvs = []")
    case True
    then show ?thesis
      by (simp add: n skip_ws_stop is_ws_def)
  next
    case False
    let ?f = "\<lambda>kv. dump_str (fst kv) @ '': '' @ dumps (Suc level) (snd kv)"
    let ?members = "join_with (CHR '','' # newline_indent (Suc level)) (map ?f kvs) @
        newline_indent level @ CHR ''}'' # rest"
    have members: "parse_members m ?members = Some (kvs, rest)"
    proof (rule parse_members_dumped)
      show "kvs \<noteq> []" by (rule False)
      show "list_all (\<lambda>kv. wf_json (snd kv)) kvs" using JObj.prems(1) by simp
      show "sum_list (map (\<lambda>kv. Suc (cost (snd kv))) kvs) < m" by (rule m)
    next
      fix kv lvl r k
      assume kv: "kv \<in> set kvs" and "wf_json (snd kv)" "value_end r" "cost (snd kv) < k"
      moreover have "snd kv \<in> Basic_BNFs.snds kv"
        by (cases kv) simp
      ultimately show "parse_value k (dumps lvl (snd kv) @ r) = Some (snd kv, r)"
        using JObj.IH [of kv "snd kv" r k lvl] by simp
    qed
    have "parse_members m (newline_indent (Suc level) @ ?members) = parse_members m ?members"
      by (rule parse_members_ws) (simp add: skip_ws_indent)
    with members
    have inner: "parse_members m (newline_indent (Suc level) @ ?members) = Some (kvs, rest)"
      by simp
    from False obtain t where "join_with (CHR '','' # newline_indent (Suc level)) (map ?f kvs) =
        ?f (hd kvs) @ t"
      using join_head [of "map ?f kvs" "CHR '','' # newline_indent (Suc level)"]
      by (auto simp: hd_map)
    then have "skip_ws (newline_indent (Suc level) @ ?members) =
        CHR 0x22 # tl (?f (hd kvs) @ t @ newline_indent level @ CHR ''}'' # rest)"
      by (simp add: skip_ws_indent dump_str_def skip_ws_stop is_ws_def)
    then obtain d ds where
      "skip_ws (newline_indent (Suc level) @ ?members) = d # ds" "d \<noteq> CHR ''}''"
      by auto
    moreover have "dict_of kvs = kvs"
      using JObj.prems(1) by (simp add: dict_of_distinct)
    ultimately show ?thesis
      using False inner by (simp add: n skip_ws_stop is_ws_def)
  qed
qed

text \<open>The length of the text bounds the depth of the recursion, so \<open>loads\<close> reads every
  dumped document.\<close>

lemma join_length:
  "ys \<noteq> [] \<Longrightarrow> sep \<noteq> [] \<Longrightarrow>
     sum_list (map (\<lambda>y. Suc (length y)) ys) \<le> Suc (length (join_with sep ys))"
proof (induction sep ys rule: join_with.induct)
  case (3 sep x y ys)
  then have "1 \<le> length sep"
    by (cases sep) simp_all
  with 3 show ?case
    by simp
qed simp_all

lemma cost_le_length: "cost j \<le> length (dumps level j)"
proof (induction j arbitrary: level)
  case (JArr xs)
  show ?case
  proof (cases "xs = []")
    case True
    then show ?thesis by simp
  next
    case False
    have "sum_list (map (\<lambda>x. Suc (cost x)) xs)
        \<le> sum_list (map (\<lambda>x. Suc (length (dumps (Suc level) x))) xs)"
      by (rule sum_list_mono) (simp add: JArr.IH)
    also have "\<dots> = sum_list (map (\<lambda>y. Suc (length y)) (map (dumps (Suc level)) xs))"
      by (simp add: comp_def)
    also have "\<dots> \<le> Suc (length (join_with (CHR '','' # newline_indent (Suc level))
        (map (dumps (Suc level)) xs)))"
      by (rule join_length) (simp_all add: False)
    finally show ?thesis
      using False by simp
  qed
next
  case (JObj kvs)
  show ?case
  proof (cases "kvs = []")
    case True
    then show ?thesis by simp
  next
    case False
    let ?f = "\<lambda>kv. dump_str (fst kv) @ '': '' @ dumps (Suc level) (snd kv)"
    have "sum_list (map (\<lambda>kv. Suc (cost (snd kv))) kvs)
        \<le> sum_list (map (\<lambda>kv. Suc (length (?f kv))) kvs)"
    proof (rule sum_list_mono)
      fix kv assume "kv \<in> set kvs"
      moreover have "snd kv \<in> Basic_BNFs.snds kv"
        by (cases kv) simp
      ultimately have "cost (snd kv) \<le> length (dumps (Suc level) (snd kv))"
        by (rule JObj.IH)
      then show "Suc (cost (snd kv)) \<le> Suc (length (?f kv))"
        by simp
    qed
    also have "\<dots> = sum_list (map (\<lambda>y. Suc (length y)) (map ?f kvs))"
      by (simp add: comp_def)
    also have "\<dots> \<le> Suc (length (join_with (CHR '','' # newline_indent (Suc level)) (map ?f kvs)))"
      by (rule join_length) (simp_all add: False)
    finally show ?thesis
      using False by simp
  qed
qed simp_all

lemma loads_dumps: "wf_json j \<Longrightarrow> loads (dumps 0 j) = Some j"
proof -
  assume wf: "wf_json j"
  have "cost j < Suc (length (dumps 0 j))"
    using cost_le_length [of j 0] by simp
  with wf have "parse_value (Suc (length (dumps 0 j))) (dumps 0 j @ []) = Some (j, [])"
    by (intro parse_value_dumps) (simp_all add: value_end_simps)
  then show ?thesis
    by (simp add: loads_def skip_ws_def)
qed

text \<open>The document of a store, and its typed reading.\<close>

lemma wf_json_of_store: "wf_json (json_of_store s)"
  by (simp add: json_of_store_def json_of_task_def json_of_opt_def list_all_iff split: option.split)

lemma task_of_json_of_task: "task_of_json (json_of_task t) = Some t"
  by (simp add: task_of_json_def json_of_task_def field_def int_of_json_def str_of_json_def
      opt_of_json_def json_of_opt_def split: option.split)

lemma those_tasks_of_tasks: "those_tasks (map json_of_task ts) = Some ts"
  by (induction ts) (simp_all add: task_of_json_of_task)

lemma store_of_json_of_store: "store_of_json (json_of_store s) = Some s"
  by (simp add: store_of_json_def json_of_store_def field_def tasks_of_json_def
      str_of_json_def those_tasks_of_tasks)

lemma init_without_file:
  "init now1 now2 Missing = Some \<lparr>self_tasks = new_store now1 now2, disk = Missing\<rparr>"
  "init now1 now2 Unreadable = Some \<lparr>self_tasks = new_store now1 now2, disk = Unreadable\<rparr>"
  by (simp_all add: init_def load_tasks_def store_of_json_of_store)

text \<open>
  C3. When \<open>save_tasks\<close> has written the file (it returns \<open>True\<close>), loading that file
  gives the store that was saved: the pending tasks and the completed tasks with all their
  fields, in the same order, and the creation stamp; \<open>last_modified\<close> is the stamp that
  \<open>save_tasks\<close> set. A manager started on that file is the manager that saved it.
\<close>

theorem save_load_roundtrip:
  "fst (save_tasks now w m) \<longrightarrow>
     store_of_json (load_tasks now1 now2 (disk (snd (save_tasks now w m)))) =
       Some (self_tasks (snd (save_tasks now w m))) \<and>
     tasks (self_tasks (snd (save_tasks now w m))) = tasks (self_tasks m) \<and>
     completed (self_tasks (snd (save_tasks now w m))) = completed (self_tasks m) \<and>
     created_date (self_tasks (snd (save_tasks now w m))) = created_date (self_tasks m) \<and>
     init now1 now2 (disk (snd (save_tasks now w m))) = Some (snd (save_tasks now w m))"
proof
  assume "fst (save_tasks now w m)"
  then have w: "w = Written"
    by (simp add: save_tasks_ok)
  let ?m' = "snd (save_tasks now w m)"
  have written: "disk ?m' = Content (dumps 0 (json_of_store (self_tasks ?m')))"
    using w by (simp add: save_tasks_def Let_def)
  have "loads (dumps 0 (json_of_store (self_tasks ?m'))) = Some (json_of_store (self_tasks ?m'))"
    by (rule loads_dumps) (rule wf_json_of_store)
  then have loaded: "store_of_json (load_tasks now1 now2 (disk ?m')) = Some (self_tasks ?m')"
    by (simp add: written load_tasks_def store_of_json_of_store)
  have "init now1 now2 (disk ?m') = Some \<lparr>self_tasks = self_tasks ?m', disk = disk ?m'\<rparr>"
    by (simp add: init_def loaded)
  then have "init now1 now2 (disk ?m') = Some ?m'"
    by simp
  with loaded show "store_of_json (load_tasks now1 now2 (disk ?m')) = Some (self_tasks ?m') \<and>
     tasks (self_tasks ?m') = tasks (self_tasks m) \<and>
     completed (self_tasks ?m') = completed (self_tasks m) \<and>
     created_date (self_tasks ?m') = created_date (self_tasks m) \<and>
     init now1 now2 (disk ?m') = Some ?m'"
    by (simp add: save_tasks_store)
qed

theorem save_load_roundtrip_witness:
  "fst (save_tasks ''2024-05-02T10:00:01'' Written two_tasks) \<and>
   store_of_json (load_tasks ''2024-06-01T08:00:00'' ''2024-06-01T08:00:00''
       (disk (snd (save_tasks ''2024-05-02T10:00:01'' Written two_tasks)))) =
     Some \<lparr>tasks = [task_rent, task_mom], completed = [],
            created_date = ''2024-05-01T08:00:00'', last_modified = ''2024-05-02T10:00:01''\<rparr>"
proof -
  have ok: "fst (save_tasks ''2024-05-02T10:00:01'' Written two_tasks)"
    by (simp add: save_tasks_ok)
  from ok save_load_roundtrip [of "''2024-05-02T10:00:01''" Written two_tasks
      "''2024-06-01T08:00:00''" "''2024-06-01T08:00:00''"]
  show ?thesis
    by (simp add: save_tasks_store two_tasks_def)
qed

section \<open>The confirmation before a file is deleted\<close>

lemma attempts_yes_no: "attempts hs = ''yes'' \<or> attempts hs = ''no''"
  by (induction hs rule: attempts.induct) (simp_all add: Let_def)

lemma attempts_Cons:
  "attempts (h # hs) =
     (if affirmative h then ''yes'' else if negative h then ''no'' else attempts hs)"
  by (cases h) (simp_all add: affirmative_def negative_def Let_def)

lemma attempts_yes:
  "attempts hs = ''yes'' \<longleftrightarrow>
     (\<exists>k < length hs. affirmative (hs ! k) \<and> (\<forall>j < k. \<not> affirmative (hs ! j) \<and> \<not> negative (hs ! j)))"
proof (induction hs)
  case Nil
  show ?case by simp
next
  case (Cons h hs)
  show ?case
  proof (cases "affirmative h")
    case True
    then have "attempts (h # hs) = ''yes''"
      by (simp add: attempts_Cons)
    moreover from True
    have "\<exists>k < length (h # hs). affirmative ((h # hs) ! k) \<and>
        (\<forall>j < k. \<not> affirmative ((h # hs) ! j) \<and> \<not> negative ((h # hs) ! j))"
      by (intro exI [of _ 0]) simp
    ultimately show ?thesis by simp
  next
    case False
    show ?thesis
    proof (cases "negative h")
      case True
      with False have "attempts (h # hs) = ''no''"
        by (simp add: attempts_Cons)
      moreover have "\<not> (\<exists>k < length (h # hs). affirmative ((h # hs) ! k) \<and>
          (\<forall>j < k. \<not> affirmative ((h # hs) ! j) \<and> \<not> negative ((h # hs) ! j)))"
      proof
        assume "\<exists>k < length (h # hs). affirmative ((h # hs) ! k) \<and>
          (\<forall>j < k. \<not> affirmative ((h # hs) ! j) \<and> \<not> negative ((h # hs) ! j))"
        then obtain k where k: "affirmative ((h # hs) ! k)"
          "\<forall>j < k. \<not> affirmative ((h # hs) ! j) \<and> \<not> negative ((h # hs) ! j)"
          by blast
        show False
        proof (cases k)
          case 0
          with k(1) False show False by simp
        next
          case (Suc k')
          with k(2) have "\<not> negative ((h # hs) ! 0)" by blast
          with True show False by simp
        qed
      qed
      ultimately show ?thesis by simp
    next
      case neither: False
      with False have step: "attempts (h # hs) = attempts hs"
        by (simp add: attempts_Cons)
      have "(\<exists>k < length (h # hs). affirmative ((h # hs) ! k) \<and>
          (\<forall>j < k. \<not> affirmative ((h # hs) ! j) \<and> \<not> negative ((h # hs) ! j))) \<longleftrightarrow>
        (\<exists>k < length hs. affirmative (hs ! k) \<and>
          (\<forall>j < k. \<not> affirmative (hs ! j) \<and> \<not> negative (hs ! j)))"
        (is "?L \<longleftrightarrow> ?R")
      proof
        assume ?L
        then obtain k where k: "k < length (h # hs)" "affirmative ((h # hs) ! k)"
          "\<forall>j < k. \<not> affirmative ((h # hs) ! j) \<and> \<not> negative ((h # hs) ! j)"
          by blast
        from k(2) False obtain k' where k': "k = Suc k'"
          by (cases k) auto
        have "\<forall>j < k'. \<not> affirmative (hs ! j) \<and> \<not> negative (hs ! j)"
        proof (intro allI impI)
          fix j assume "j < k'"
          then have "Suc j < k" using k' by simp
          with k(3) have "\<not> affirmative ((h # hs) ! Suc j) \<and> \<not> negative ((h # hs) ! Suc j)"
            by blast
          then show "\<not> affirmative (hs ! j) \<and> \<not> negative (hs ! j)" by simp
        qed
        with k(1,2) k' show ?R
          by (intro exI [of _ k']) simp
      next
        assume ?R
        then obtain k where k: "k < length hs" "affirmative (hs ! k)"
          "\<forall>j < k. \<not> affirmative (hs ! j) \<and> \<not> negative (hs ! j)"
          by blast
        have "\<forall>j < Suc k. \<not> affirmative ((h # hs) ! j) \<and> \<not> negative ((h # hs) ! j)"
        proof (intro allI impI)
          fix j assume j: "j < Suc k"
          show "\<not> affirmative ((h # hs) ! j) \<and> \<not> negative ((h # hs) ! j)"
          proof (cases j)
            case 0
            with False neither show ?thesis by simp
          next
            case (Suc j')
            with j k(3) show ?thesis by simp
          qed
        qed
        with k(1,2) show ?L
          by (intro exI [of _ "Suc k"]) simp
      qed
      with step Cons.IH show ?thesis by simp
    qed
  qed
qed

lemma listen_yes:
  "listen_for_confirmation mic = ''yes'' \<longleftrightarrow>
     (\<exists>k < max_attempts. affirmative (mic k) \<and> (\<forall>j < k. \<not> affirmative (mic j) \<and> \<not> negative (mic j)))"
proof -
  have "(\<exists>k < length (map mic [0..<max_attempts]).
          affirmative (map mic [0..<max_attempts] ! k) \<and>
          (\<forall>j < k. \<not> affirmative (map mic [0..<max_attempts] ! j) \<and>
                   \<not> negative (map mic [0..<max_attempts] ! j))) \<longleftrightarrow>
        (\<exists>k < max_attempts. affirmative (mic k) \<and>
          (\<forall>j < k. \<not> affirmative (mic j) \<and> \<not> negative (mic j)))"
    by (simp cong: conj_cong)
  then show ?thesis
    by (simp only: listen_for_confirmation_def attempts_yes)
qed

text \<open>
  C8. \<open>listen_for_confirmation\<close> answers \<open>yes\<close> exactly when one of its three attempts
  captures an affirmative token and no earlier attempt captured an affirmative or a
  negative one; in every other case (a negative token, or three attempts that fail or
  capture something else) it answers \<open>no\<close>. \<open>delete_item\<close> calls the file system to
  delete exactly when the path is valid and the answer is \<open>yes\<close>, and then it calls it
  once; with any other answer it deletes nothing and returns the cancellation message.
\<close>

theorem delete_needs_confirmation:
  "(listen_for_confirmation mic = ''yes'' \<longleftrightarrow>
      (\<exists>k < max_attempts. affirmative (mic k) \<and>
         (\<forall>j < k. \<not> affirmative (mic j) \<and> \<not> negative (mic j)))) \<and>
   (listen_for_confirmation mic \<noteq> ''yes'' \<longrightarrow> listen_for_confirmation mic = ''no'') \<and>
   (snd (delete_item expanduser join fs mic answer item_name from_folder) \<noteq> [] \<longleftrightarrow>
      validate_path fs (join (get_full_path expanduser from_folder) item_name) \<and>
      listen_for_confirmation mic = ''yes'') \<and>
   (validate_path fs (join (get_full_path expanduser from_folder) item_name) \<and>
    listen_for_confirmation mic = ''yes'' \<longrightarrow>
      snd (delete_item expanduser join fs mic answer item_name from_folder) =
        [if isdir fs (join (get_full_path expanduser from_folder) item_name)
         then Rmtree (join (get_full_path expanduser from_folder) item_name)
         else Remove (join (get_full_path expanduser from_folder) item_name)]) \<and>
   (validate_path fs (join (get_full_path expanduser from_folder) item_name) \<and>
    listen_for_confirmation mic \<noteq> ''yes'' \<longrightarrow>
      delete_item expanduser join fs mic answer item_name from_folder =
        (''Delete operation cancelled.'', []))"
proof (intro conjI)
  show "listen_for_confirmation mic = ''yes'' \<longleftrightarrow>
      (\<exists>k < max_attempts. affirmative (mic k) \<and>
         (\<forall>j < k. \<not> affirmative (mic j) \<and> \<not> negative (mic j)))"
    by (rule listen_yes)
  show "listen_for_confirmation mic \<noteq> ''yes'' \<longrightarrow> listen_for_confirmation mic = ''no''"
    using attempts_yes_no [of "map mic [0..<max_attempts]"]
    by (simp only: listen_for_confirmation_def) blast
  let ?path = "join (get_full_path expanduser from_folder) item_name"
  show "snd (delete_item expanduser join fs mic answer item_name from_folder) \<noteq> [] \<longleftrightarrow>
      validate_path fs ?path \<and> listen_for_confirmation mic = ''yes''"
    by (simp add: delete_item_def Let_def split: removal.split)
  show "validate_path fs ?path \<and> listen_for_confirmation mic = ''yes'' \<longrightarrow>
      snd (delete_item expanduser join fs mic answer item_name from_folder) =
        [if isdir fs ?path then Rmtree ?path else Remove ?path]"
    by (simp add: delete_item_def Let_def split: removal.split)
  show "validate_path fs ?path \<and> listen_for_confirmation mic \<noteq> ''yes'' \<longrightarrow>
      delete_item expanduser join fs mic answer item_name from_folder =
        (''Delete operation cancelled.'', [])"
    by (simp add: delete_item_def Let_def)
qed

theorem delete_needs_confirmation_witness:
  "validate_path downloads_fs (unix_join (get_full_path home_expand ''downloads'') ''report.docx'') \<and>
   listen_for_confirmation says_no \<noteq> ''yes'' \<and>
   listen_for_confirmation says_no = ''no'' \<and>
   delete_item home_expand unix_join downloads_fs says_no Removed ''report.docx'' ''downloads'' =
     (''Delete operation cancelled.'', []) \<and>
   listen_for_confirmation says_yes_later = ''yes'' \<and>
   snd (delete_item home_expand unix_join downloads_fs says_yes_later Removed ''report.docx''
     ''downloads'') = [Remove ''/home/user/Downloads/report.docx'']"
proof -
  have path: "unix_join (get_full_path home_expand ''downloads'') ''report.docx'' =
      ''/home/user/Downloads/report.docx''"
    by (simp add: unix_join_def get_full_path_def home_expand_def folder_mapping_def str_eval)
  have valid: "validate_path downloads_fs ''/home/user/Downloads/report.docx''"
    and plain: "\<not> isdir downloads_fs ''/home/user/Downloads/report.docx''"
    by (simp_all add: validate_path_def isdir_def downloads_fs_def)
  have no: "listen_for_confirmation says_no \<noteq> ''yes''"
    by code_simp
  have yes: "listen_for_confirmation says_yes_later = ''yes''"
    by code_simp
  from path valid plain no yes
    delete_needs_confirmation [of says_no home_expand unix_join downloads_fs Removed
      "''report.docx''" "''downloads''"]
    delete_needs_confirmation [of says_yes_later home_expand unix_join downloads_fs Removed
      "''report.docx''" "''downloads''"]
  show ?thesis
    by simp
qed

section \<open>The branch for a new task\<close>

lemma new_task_not_fallback: "any_in [''new task'', ''add task''] r \<Longrightarrow> branch r \<noteq> Fallback"
  by (simp add: branch_def)

lemma milk_branch: "branch ''add a new task buy milk'' = TaskNew"
  by (simp add: branch_def any_in_def)

lemma milk_text: "new_task_text ''add a new task buy milk'' = ''add a  buy milk''"
  by (simp add: new_task_text_def str_eval)

lemma milk_priority: "new_task_priority ''add a new task buy milk'' = ''medium''"
  by (simp add: new_task_priority_def any_in_def)

lemma short_branch: "branch ''new task buy milk'' = TaskNew"
  by (simp add: branch_def any_in_def)

lemma short_text: "new_task_text ''new task buy milk'' = ''buy milk''"
  by (simp add: new_task_text_def str_eval)

lemma short_priority: "new_task_priority ''new task buy milk'' = ''medium''"
  by (simp add: new_task_priority_def any_in_def)

lemma lstrip_rstrip: "lstrip (rstrip (lstrip s)) = rstrip (lstrip s)"
proof (cases "lstrip s")
  case Nil
  then have "rstrip (lstrip s) = []"
    by (simp add: rstrip_def)
  then show ?thesis
    by (simp add: lstrip_def)
next
  case (Cons x t)
  then have x: "\<not> is_space x"
    unfolding lstrip_def by (metis dropWhile_eq_Cons_conv)
  have "dropWhile is_space (rev t @ [x]) =
      (if \<forall>y \<in> set (rev t). is_space y then [x] else dropWhile is_space (rev t) @ [x])"
    using x by (simp add: dropWhile_append)
  then obtain ys where "dropWhile is_space (rev t @ [x]) = ys @ [x]"
    by (cases "\<forall>y \<in> set (rev t). is_space y") auto
  then have "rstrip (x # t) = x # rev ys"
    by (simp add: rstrip_def)
  with Cons x show ?thesis
    by (simp add: lstrip_def)
qed

lemma strip_strip: "strip (strip s) = strip s"
  by (simp add: strip_def lstrip_rstrip) (simp add: rstrip_def)

lemma new_task_branch_tasks:
  assumes "new_task_text request \<noteq> []"
  shows "tasks (self_tasks (snd (new_task_branch now now_s w request follow_up m))) =
           tasks (self_tasks m) @
             [\<lparr>id_t = int (length (tasks (self_tasks m))) + 1,
               text_t = strip (new_task_text request),
               priority = lower (new_task_priority request), status = ''pending'',
               created = now, due_date = None, completed_date = None\<rparr>]"
proof -
  have "strip (new_task_text request) = new_task_text request"
    by (simp add: new_task_text_def strip_strip)
  with assms show ?thesis
    by (simp add: new_task_branch_def Let_def case_prod_beta add_task_store)
qed

text \<open>
  C7 as the specification states it: for "add a new task buy milk" the remainder is
  "buy milk" and the pending list gets one entry with that text. The branch removes the
  trigger phrase only, so the words before it stay in the text.
\<close>

theorem new_task_remainder_counterexample:
  "branch ''add a new task buy milk'' = TaskNew \<and>
   new_task_text ''add a new task buy milk'' \<noteq> ''buy milk'' \<and>
   map text_t (tasks (self_tasks (snd (new_task_branch ''2024-05-01T09:00:00''
     ''2024-05-01T09:00:01'' Written ''add a new task buy milk'' '''' empty_manager))))
     \<noteq> [''buy milk'']"
proof -
  have "new_task_text ''add a new task buy milk'' \<noteq> []"
    by (simp add: milk_text)
  from new_task_branch_tasks [OF this] show ?thesis
    by (simp add: milk_branch milk_text str_eval empty_manager_def new_store_def)
qed

text \<open>
  C7, amended. A request that contains "new task" or "add task" never reaches the
  fallback; it takes the branch of the first trigger in the chain that it contains.
  "add a new task buy milk" takes the branch for a new task; the remainder after the
  trigger phrases are removed and the ends are trimmed is "add a  buy milk", and from an
  empty store the pending list then has exactly one entry, with that text and the
  priority "medium". For "new task buy milk" the remainder is "buy milk" and the one
  entry has the text "buy milk" and the priority "medium". A request with an earlier
  trigger, as "new task play music", takes the earlier branch.
\<close>

theorem new_task_dispatch:
  "(any_in [''new task'', ''add task''] r \<longrightarrow> branch r \<noteq> Fallback) \<and>
   branch ''add a new task buy milk'' = TaskNew \<and>
   new_task_text ''add a new task buy milk'' = ''add a  buy milk'' \<and>
   map (\<lambda>t. (text_t t, priority t))
     (tasks (self_tasks (snd (new_task_branch now now_s w ''add a new task buy milk'' follow_up
        empty_manager)))) = [(''add a  buy milk'', ''medium'')] \<and>
   branch ''new task buy milk'' = TaskNew \<and>
   new_task_text ''new task buy milk'' = ''buy milk'' \<and>
   map (\<lambda>t. (text_t t, priority t))
     (tasks (self_tasks (snd (new_task_branch now now_s w ''new task buy milk'' follow_up
        empty_manager)))) = [(''buy milk'', ''medium'')] \<and>
   branch ''new task play music'' = YoutubePlay"
proof (intro conjI impI)
  assume "any_in [''new task'', ''add task''] r"
  then show "branch r \<noteq> Fallback"
    by (rule new_task_not_fallback)
next
  show "branch ''add a new task buy milk'' = TaskNew"
    by (rule milk_branch)
  show "new_task_text ''add a new task buy milk'' = ''add a  buy milk''"
    by (rule milk_text)
  have "new_task_text ''add a new task buy milk'' \<noteq> []"
    by (simp add: milk_text)
  from new_task_branch_tasks [OF this]
  show "map (\<lambda>t. (text_t t, priority t))
     (tasks (self_tasks (snd (new_task_branch now now_s w ''add a new task buy milk'' follow_up
        empty_manager)))) = [(''add a  buy milk'', ''medium'')]"
    by (simp add: milk_text milk_priority str_eval empty_manager_def new_store_def)
  show "branch ''new task buy milk'' = TaskNew"
    by (rule short_branch)
  show "new_task_text ''new task buy milk'' = ''buy milk''"
    by (rule short_text)
  have "new_task_text ''new task buy milk'' \<noteq> []"
    by (simp add: short_text)
  from new_task_branch_tasks [OF this]
  show "map (\<lambda>t. (text_t t, priority t))
     (tasks (self_tasks (snd (new_task_branch now now_s w ''new task buy milk'' follow_up
        empty_manager)))) = [(''buy milk'', ''medium'')]"
    by (simp add: short_text short_priority str_eval empty_manager_def new_store_def)
  show "branch ''new task play music'' = YoutubePlay"
    by (simp add: branch_def any_in_def)
qed

theorem new_task_dispatch_witness:
  "any_in [''new task'', ''add task''] ''add a new task buy milk'' \<and>
   branch ''add a new task buy milk'' \<noteq> Fallback \<and>
   map (\<lambda>t. (text_t t, priority t))
     (tasks (self_tasks (snd (new_task_branch ''2024-05-01T09:00:00'' ''2024-05-01T09:00:01'' Written
        ''add a new task buy milk'' '''' empty_manager)))) = [(''add a  buy milk'', ''medium'')]"
proof -
  have trigger: "any_in [''new task'', ''add task''] ''add a new task buy milk''"
    by (simp add: any_in_def)
  from trigger
    new_task_dispatch [of "''add a new task buy milk''" "''2024-05-01T09:00:00''"
      "''2024-05-01T09:00:01''" Written "''''"]
  show ?thesis
    by simp
qed

end
